theory Spec2Isabelle
  imports Main
begin

section \<open>JavaScript strings\<close>

text \<open>
  A JavaScript string is a sequence of UTF-16 code units; regular expressions without
  the \<open>u\<close> flag, \<open>startsWith\<close>, \<open>includes\<close> and \<open>replace\<close> all work on code
  units. A code unit is modelled as a natural number (only values below 65536 occur in
  the program; nothing below depends on the bound).
\<close>

type_synonym jsstring = "nat list"

definition js :: "string \<Rightarrow> jsstring" where
  \<comment> \<open>an ASCII literal of the source, as code units\<close>
  "js s = map of_char s"

definition startsWith :: "jsstring \<Rightarrow> jsstring \<Rightarrow> bool" where
  \<comment> \<open>\<open>s.startsWith(p)\<close>\<close>
  "startsWith s p = (take (length p) s = p)"

fun indexOf_from :: "jsstring \<Rightarrow> jsstring \<Rightarrow> nat \<Rightarrow> nat option" where
  \<comment> \<open>first position, counted from \<open>pos\<close>, at which \<open>pat\<close> occurs in the rest \<open>s\<close>\<close>
  "indexOf_from pat [] pos = (if pat = [] then Some pos else None)"
| "indexOf_from pat (c # s) pos =
     (if take (length pat) (c # s) = pat then Some pos else indexOf_from pat s (Suc pos))"

definition indexOf :: "jsstring \<Rightarrow> jsstring \<Rightarrow> nat option" where
  \<comment> \<open>\<open>s.indexOf(pat)\<close>, with \<open>None\<close> for -1\<close>
  "indexOf s pat = indexOf_from pat s 0"

definition js_includes :: "jsstring \<Rightarrow> jsstring \<Rightarrow> bool" where
  \<comment> \<open>\<open>s.includes(pat)\<close>\<close>
  "js_includes s pat = (indexOf s pat \<noteq> None)"

fun getSubstitution :: "jsstring \<Rightarrow> jsstring \<Rightarrow> jsstring \<Rightarrow> jsstring \<Rightarrow> jsstring" where
  \<comment> \<open>The replacement text of \<open>String.prototype.replace\<close> for a string pattern: in the
      replacement, \<open>$$\<close> stands for a dollar sign, \<open>$&\<close> for the matched text,
      \<open>$`\<close> for the text before the match and \<open>$'\<close> for the text after it. There are
      no capture groups, so \<open>$1\<close>, \<open>$<name>\<close> and a lone \<open>$\<close> stay as they are.\<close>
  "getSubstitution matched pre post (c # d # r) =
     (if c = 36 \<and> d = 36 then 36 # getSubstitution matched pre post r
      else if c = 36 \<and> d = 38 then matched @ getSubstitution matched pre post r
      else if c = 36 \<and> d = 96 then pre @ getSubstitution matched pre post r
      else if c = 36 \<and> d = 39 then post @ getSubstitution matched pre post r
      else c # getSubstitution matched pre post (d # r))"
| "getSubstitution matched pre post r = r"

definition replace :: "jsstring \<Rightarrow> jsstring \<Rightarrow> jsstring \<Rightarrow> jsstring" where
  \<comment> \<open>\<open>s.replace(pat, repl)\<close> with a string pattern: only the first occurrence is
      replaced, and the replacement text is expanded by \<open>getSubstitution\<close>\<close>
  "replace s pat repl =
     (case indexOf s pat of
        None \<Rightarrow> s
      | Some i \<Rightarrow>
          (let pre = take i s; post = drop (i + length pat) s
           in pre @ getSubstitution pat pre post repl @ post))"

section \<open>The regular expressions of the output scanner\<close>

text \<open>
  The six patterns of \<open>shellProcess.onData\<close> all have the shape
  \<open>/prefix(group)/g\<close> or \<open>/prefix(group)/gi\<close>: a prefix of literal characters, a
  non-capturing alternation of literals and greedy repetitions of a character class,
  followed by the one capture group, which ends the pattern. The matcher below is the
  backtracking matcher of ECMAScript restricted to these constructs: alternatives are
  tried left to right, greedy quantifiers take as much as they can and give back one
  character at a time.
\<close>

datatype cclass =
    WhiteSpace           \<comment> \<open>\<open>\s\<close>\<close>
  | UrlChar              \<comment> \<open>\<open>[^\s\x1b\x07]\<close>\<close>

datatype atom =
    Lit nat              \<comment> \<open>one literal character\<close>
  | Opt nat              \<comment> \<open>\<open>c?\<close>\<close>
  | Alt "jsstring list"  \<comment> \<open>\<open>(?:a|b|c)\<close> with literal alternatives\<close>
  | Star cclass          \<comment> \<open>\<open>[...]*\<close>\<close>
  | Plus cclass          \<comment> \<open>\<open>[...]+\<close>\<close>
  | GroupOpen            \<comment> \<open>the opening parenthesis of capture group 1\<close>

record regex =
  source :: jsstring
  ignoreCase :: bool
  prefix_atoms :: "atom list"
  group_atoms :: "atom list"

definition is_space :: "nat \<Rightarrow> bool" where
  \<comment> \<open>the characters of \<open>\s\<close>: ECMAScript WhiteSpace and LineTerminator\<close>
  "is_space c =
     (c = 9 \<or> c = 10 \<or> c = 11 \<or> c = 12 \<or> c = 13 \<or> c = 32 \<or> c = 160 \<or> c = 5760
      \<or> (8192 \<le> c \<and> c \<le> 8202) \<or> c = 8232 \<or> c = 8233 \<or> c = 8239 \<or> c = 8287
      \<or> c = 12288 \<or> c = 65279)"

fun in_class :: "cclass \<Rightarrow> nat \<Rightarrow> bool" where
  "in_class WhiteSpace c = is_space c"
| "in_class UrlChar c = (\<not> is_space c \<and> c \<noteq> 27 \<and> c \<noteq> 7)"

definition canonicalize :: "nat \<Rightarrow> nat" where
  \<comment> \<open>Case folding of the \<open>i\<close> flag: upper case of an ASCII letter. On other characters
      ECMAScript's Canonicalize never yields an ASCII character, and the literals of the
      patterns are ASCII, so the comparison below agrees with it.\<close>
  "canonicalize c = (if 97 \<le> c \<and> c \<le> 122 then c - 32 else c)"

definition char_eq :: "bool \<Rightarrow> nat \<Rightarrow> nat \<Rightarrow> bool" where
  "char_eq ci a x = (if ci then canonicalize a = canonicalize x else a = x)"

fun atom_size :: "atom \<Rightarrow> nat" where
  "atom_size (Alt alts) = Suc (sum_list (map (\<lambda>a. Suc (length a)) alts))"
| "atom_size (Plus cl) = 2"
| "atom_size a = 1"

function m :: "bool \<Rightarrow> atom list \<Rightarrow> jsstring \<Rightarrow> nat \<Rightarrow> nat \<Rightarrow> (nat \<times> nat) option" where
  \<comment> \<open>\<open>m ci atoms s pos g\<close>: match \<open>atoms\<close> against the input \<open>s\<close>, which starts at index
      \<open>pos\<close> of the chunk; \<open>g\<close> is where group 1 was opened. The result is the pair of
      the start of group 1 and the end of the match.\<close>
  "m ci [] s pos g = Some (g, pos)"
| "m ci (GroupOpen # as) s pos g = m ci as s pos pos"
| "m ci (Lit c # as) [] pos g = None"
| "m ci (Lit c # as) (x # xs) pos g =
     (if char_eq ci c x then m ci as xs (Suc pos) g else None)"
| "m ci (Opt c # as) [] pos g = m ci as [] pos g"
| "m ci (Opt c # as) (x # xs) pos g =
     (if char_eq ci c x
      then (case m ci as xs (Suc pos) g of Some r \<Rightarrow> Some r | None \<Rightarrow> m ci as (x # xs) pos g)
      else m ci as (x # xs) pos g)"
| "m ci (Alt [] # as) s pos g = None"
| "m ci (Alt (a # alts) # as) s pos g =
     (case m ci (map Lit a @ as) s pos g of
        Some r \<Rightarrow> Some r
      | None \<Rightarrow> m ci (Alt alts # as) s pos g)"
| "m ci (Star cl # as) [] pos g = m ci as [] pos g"
| "m ci (Star cl # as) (x # xs) pos g =
     (if in_class cl x
      then (case m ci (Star cl # as) xs (Suc pos) g of
              Some r \<Rightarrow> Some r
            | None \<Rightarrow> m ci as (x # xs) pos g)
      else m ci as (x # xs) pos g)"
| "m ci (Plus cl # as) [] pos g = None"
| "m ci (Plus cl # as) (x # xs) pos g =
     (if in_class cl x then m ci (Star cl # as) xs (Suc pos) g else None)"
  by pat_completeness auto
termination
  by (relation "measure (\<lambda>(ci, as, s, pos, g). sum_list (map atom_size as) + length s)")
     (auto simp: comp_def sum_list_triv)

fun search :: "bool \<Rightarrow> atom list \<Rightarrow> jsstring \<Rightarrow> nat \<Rightarrow> (nat \<times> nat \<times> nat) option" where
  \<comment> \<open>try every start position from \<open>pos\<close> on, the end of the input included; the result
      is (start of the match, start of group 1, end of the match)\<close>
  "search ci as [] pos =
     (case m ci as [] pos pos of Some (g, e) \<Rightarrow> Some (pos, g, e) | None \<Rightarrow> None)"
| "search ci as (x # xs) pos =
     (case m ci as (x # xs) pos pos of
        Some (g, e) \<Rightarrow> Some (pos, g, e)
      | None \<Rightarrow> search ci as xs (Suc pos))"

definition atoms_of :: "regex \<Rightarrow> atom list" where
  \<comment> \<open>the whole pattern: the prefix, then the capture group, which ends the pattern\<close>
  "atoms_of p = prefix_atoms p @ GroupOpen # group_atoms p"

definition exec :: "regex \<Rightarrow> jsstring \<Rightarrow> nat \<Rightarrow> (nat \<times> nat \<times> nat) option" where
  \<comment> \<open>\<open>pattern.exec(data)\<close> of a global pattern whose \<open>lastIndex\<close> is \<open>i\<close>; the caller
      stores the end of the match as the next \<open>lastIndex\<close>\<close>
  "exec p s i =
     (if length s < i then None
      else search (ignoreCase p) (atoms_of p) (drop i s) i)"

definition substring :: "jsstring \<Rightarrow> nat \<Rightarrow> nat \<Rightarrow> jsstring" where
  "substring s b e = take (e - b) (drop b s)"

definition lits :: "string \<Rightarrow> atom list" where
  "lits s = map Lit (js s)"

definition url_group :: "atom list" where
  \<comment> \<open>\<open>(https?:\/\/[^\s\x1b\x07]+)\<close>\<close>
  "url_group = lits ''http'' @ [Opt 115] @ lits ''://'' @ [Plus UrlChar]"

definition url_group_source :: jsstring where
  \<comment> \<open>the text of the group in \<open>pattern.source\<close>; 92 is the backslash\<close>
  "url_group_source =
     js ''(https?:'' @ [92] @ js ''/'' @ [92] @ js ''/[^'' @ [92] @ js ''s'' @ [92]
       @ js ''x1b'' @ [92] @ js ''x07]+)''"

definition pattern_open_cmd :: regex where
  \<comment> \<open>\<open>/(?:xdg-open|open|start)\s+(https?:\/\/[^\s\x1b\x07]+)/g\<close>\<close>
  "pattern_open_cmd =
     \<lparr>source = js ''(?:xdg-open|open|start)'' @ [92] @ js ''s+'' @ url_group_source,
      ignoreCase = False,
      prefix_atoms = [Alt [js ''xdg-open'', js ''open'', js ''start''], Plus WhiteSpace],
      group_atoms = url_group\<rparr>"

definition pattern_OPEN_URL :: regex where
  \<comment> \<open>\<open>/OPEN_URL:\s*(https?:\/\/[^\s\x1b\x07]+)/g\<close>\<close>
  "pattern_OPEN_URL =
     \<lparr>source = js ''OPEN_URL:'' @ [92] @ js ''s*'' @ url_group_source,
      ignoreCase = False,
      prefix_atoms = lits ''OPEN_URL:'' @ [Star WhiteSpace],
      group_atoms = url_group\<rparr>"

definition pattern_Opening :: regex where
  \<comment> \<open>\<open>/Opening\s+(https?:\/\/[^\s\x1b\x07]+)/gi\<close>\<close>
  "pattern_Opening =
     \<lparr>source = js ''Opening'' @ [92] @ js ''s+'' @ url_group_source,
      ignoreCase = True,
      prefix_atoms = lits ''Opening'' @ [Plus WhiteSpace],
      group_atoms = url_group\<rparr>"

definition pattern_Visit :: regex where
  \<comment> \<open>\<open>/Visit:\s*(https?:\/\/[^\s\x1b\x07]+)/gi\<close>\<close>
  "pattern_Visit =
     \<lparr>source = js ''Visit:'' @ [92] @ js ''s*'' @ url_group_source,
      ignoreCase = True,
      prefix_atoms = lits ''Visit:'' @ [Star WhiteSpace],
      group_atoms = url_group\<rparr>"

definition pattern_View_at :: regex where
  \<comment> \<open>\<open>/View at:\s*(https?:\/\/[^\s\x1b\x07]+)/gi\<close>\<close>
  "pattern_View_at =
     \<lparr>source = js ''View at:'' @ [92] @ js ''s*'' @ url_group_source,
      ignoreCase = True,
      prefix_atoms = lits ''View at:'' @ [Star WhiteSpace],
      group_atoms = url_group\<rparr>"

definition pattern_Browse_to :: regex where
  \<comment> \<open>\<open>/Browse to:\s*(https?:\/\/[^\s\x1b\x07]+)/gi\<close>\<close>
  "pattern_Browse_to =
     \<lparr>source = js ''Browse to:'' @ [92] @ js ''s*'' @ url_group_source,
      ignoreCase = True,
      prefix_atoms = lits ''Browse to:'' @ [Star WhiteSpace],
      group_atoms = url_group\<rparr>"

definition patterns :: "regex list" where
  \<comment> \<open>the array \<open>patterns\<close>, in the order of the source\<close>
  "patterns =
     [pattern_open_cmd, pattern_OPEN_URL, pattern_Opening,
      pattern_Visit, pattern_View_at, pattern_Browse_to]"

section \<open>WebSocket connections and outbound messages\<close>

text \<open>
  An outbound message is the object handed to \<open>JSON.stringify\<close> before \<open>ws.send\<close>.
  The events that the external \<open>spawnClaude\<close> writes to a chat socket are opaque.
\<close>

datatype out_msg =
    Output jsstring                          \<comment> \<open>\<open>{type: 'output', data}\<close>\<close>
  | Url_open jsstring                        \<comment> \<open>\<open>{type: 'url_open', url}\<close>\<close>
  | Error_msg jsstring                       \<comment> \<open>\<open>{type: 'error', error}\<close>\<close>
  | Session_aborted jsstring bool            \<comment> \<open>\<open>{type: 'session-aborted', sessionId, success}\<close>\<close>
  | Projects_updated "jsstring list" jsstring jsstring jsstring
      \<comment> \<open>\<open>{type: 'projects_updated', projects, timestamp, changeType, changedFile}\<close>\<close>
  | Claude_event jsstring                    \<comment> \<open>an event written by \<open>spawnClaude\<close>\<close>

datatype readyState = OPEN | CLOSING | CLOSED
  \<comment> \<open>a server-side socket is handed over by \<open>handleUpgrade\<close> in state OPEN, so
      CONNECTING is never observed\<close>

record websocket =
  readyState :: readyState
  sent :: "out_msg list"

definition ws_send :: "out_msg \<Rightarrow> websocket \<Rightarrow> websocket" where
  \<comment> \<open>\<open>ws.send(JSON.stringify(msg))\<close> without a callback: the message goes out on an
      open socket; on a closing or closed socket the \<open>ws\<close> library drops it and
      reports the failure to the callback only\<close>
  "ws_send msg ws = (if readyState ws = OPEN then ws\<lparr>sent := sent ws @ [msg]\<rparr> else ws)"

section \<open>The output scanner of the shell session\<close>

definition confirmation :: jsstring where
  \<comment> \<open>the text before the URL in the template literal of the rewrite: the globe emoji
      U+1F310 (a surrogate pair) and \<open>" Opening in browser: "\<close>\<close>
  "confirmation = [55356, 57104] @ js '' Opening in browser: ''"

definition on_match ::
  "regex \<Rightarrow> jsstring \<Rightarrow> nat \<times> nat \<times> nat \<Rightarrow> websocket \<times> jsstring \<Rightarrow> websocket \<times> jsstring" where
  \<comment> \<open>the body of the \<open>while\<close> loop for one match: \<open>match[0]\<close> is the text from \<open>b\<close> to
      \<open>e\<close>, \<open>match[1]\<close> the text from \<open>g\<close> to \<open>e\<close>\<close>
  "on_match pattern data match st =
     (case match of (b, g, e) \<Rightarrow>
      case st of (ws, outputData) \<Rightarrow>
        (let url = substring data g e;
             ws' = ws_send (Url_open url) ws
         in if js_includes (source pattern) (js ''OPEN_URL'')
            then (ws', replace outputData (substring data b e) (confirmation @ url))
            else (ws', outputData)))"

lemma m_end_le: "m ci as s pos g = Some (g', e) \<Longrightarrow> e \<le> pos + length s"
  by (induction ci as s pos g rule: m.induct) (auto split: if_splits option.splits)

lemma search_end_le: "search ci as s pos = Some (b, g, e) \<Longrightarrow> e \<le> pos + length s"
proof (induction s arbitrary: pos)
  case Nil
  then show ?case by (auto split: option.splits dest: m_end_le)
next
  case (Cons x xs)
  show ?case
  proof (cases "m ci as (x # xs) pos pos")
    case None
    with Cons.prems have "search ci as xs (Suc pos) = Some (b, g, e)" by simp
    from Cons.IH [OF this] show ?thesis by simp
  next
    case (Some r)
    with Cons.prems have "m ci as (x # xs) pos pos = Some (g, e)"
      by (cases r) simp
    from m_end_le [OF this] show ?thesis by simp
  qed
qed

lemma exec_end_le: "exec p s i = Some (b, g, e) \<Longrightarrow> e \<le> length s"
  by (auto simp: exec_def split: if_splits dest!: search_end_le)

function scan_pattern ::
  "regex \<Rightarrow> jsstring \<Rightarrow> nat \<Rightarrow> websocket \<times> jsstring \<Rightarrow> (websocket \<times> jsstring) option" where
  \<comment> \<open>\<open>while ((match = pattern.exec(data)) !== null) { ... }\<close> with \<open>lastIndex = i\<close>.
      A match that does not move \<open>lastIndex\<close> forward would be found again for ever:
      the loop does not return, which is the value \<open>None\<close>.\<close>
  "scan_pattern pattern data i st =
     (case exec pattern data i of
        None \<Rightarrow> Some st
      | Some (b, g, e) \<Rightarrow>
          if e \<le> i then None
          else scan_pattern pattern data e (on_match pattern data (b, g, e) st))"
  by pat_completeness auto
termination
  by (relation "measure (\<lambda>(pattern, data, i, st). length data - i)")
     (auto dest: exec_end_le)

declare scan_pattern.simps [simp del]

fun scan_all ::
  "regex list \<Rightarrow> jsstring \<Rightarrow> websocket \<times> jsstring \<Rightarrow> (websocket \<times> jsstring) option" where
  \<comment> \<open>\<open>patterns.forEach(pattern => ...)\<close>; every pattern starts at \<open>lastIndex = 0\<close>,
      since the array of regular expression literals is built anew for each chunk\<close>
  "scan_all [] data st = Some st"
| "scan_all (pattern # ps) data st =
     (case scan_pattern pattern data 0 st of
        None \<Rightarrow> None
      | Some st' \<Rightarrow> scan_all ps data st')"

definition onData :: "websocket \<Rightarrow> jsstring \<Rightarrow> websocket option" where
  \<comment> \<open>the callback of \<open>shellProcess.onData\<close> for the socket \<open>ws\<close> of its closure\<close>
  "onData ws data =
     (if readyState ws = OPEN
      then (case scan_all patterns data (ws, data) of
              None \<Rightarrow> None
            | Some (ws', outputData) \<Rightarrow> Some (ws_send (Output outputData) ws'))
      else Some ws)"

function matchAll :: "regex \<Rightarrow> jsstring \<Rightarrow> nat \<Rightarrow> (nat \<times> nat \<times> nat) list option" where
  \<comment> \<open>the matches that repeated \<open>pattern.exec(data)\<close> returns from \<open>lastIndex = i\<close> on,
      each as (start, start of group 1, end); this is what "the occurrences of a pattern
      in a chunk" means for a global regular expression\<close>
  "matchAll pattern data i =
     (case exec pattern data i of
        None \<Rightarrow> Some []
      | Some (b, g, e) \<Rightarrow>
          if e \<le> i then None
          else (case matchAll pattern data e of
                  None \<Rightarrow> None
                | Some ms \<Rightarrow> Some ((b, g, e) # ms)))"
  by pat_completeness auto
termination
  by (relation "measure (\<lambda>(pattern, data, i). length data - i)")
     (auto dest: exec_end_le)

declare matchAll.simps [simp del]

section \<open>The gateway\<close>

text \<open>
  Sockets and pseudo-terminal processes are objects with identity; they are numbered in
  the order of their creation. The closure variable \<open>shellProcess\<close> of each call of
  \<open>handleShellConnection\<close> is a field of the state, indexed by the socket of the call.
  Of the console, the lines written by \<open>console.error\<close> and \<open>console.warn\<close> are kept;
  the \<open>console.log\<close> lines are left out.
\<close>

type_synonym ws_id = nat
type_synonym pid = nat

record request =
  url :: jsstring
  session_isAuthenticated :: "bool option"  \<comment> \<open>\<open>request.session.isAuthenticated\<close>; \<open>None\<close> is undefined\<close>

record raw_socket =
  written :: "jsstring list"
  destroyed :: bool

record pty_process =
  command :: jsstring            \<comment> \<open>the \<open>shellCommand\<close> given to \<open>bash -c\<close>\<close>
  cols :: int
  rows :: int
  input_written :: "jsstring list"
  killed :: bool                 \<comment> \<open>\<open>kill()\<close> was called on the process\<close>
  exited :: bool                 \<comment> \<open>the exit event of the process has fired\<close>
  owner :: ws_id                 \<comment> \<open>the socket of the closure its callbacks belong to\<close>

datatype handler = Shell | Chat

datatype console_entry =
    Chat_WebSocket_error jsstring
  | Error_spawning_process jsstring
  | Error_writing_to_shell jsstring
  | No_active_shell_process
  | Shell_WebSocket_error jsstring

record gateway =
  connectedClients :: "ws_id list"     \<comment> \<open>the Set, in insertion order\<close>
  sockets :: "ws_id \<rightharpoonup> websocket"
  listeners :: "ws_id \<rightharpoonup> handler"     \<comment> \<open>which handler attached its listeners to a socket\<close>
  shellProcess :: "ws_id \<rightharpoonup> pid"      \<comment> \<open>\<open>None\<close> is null\<close>
  ptys :: "pid \<rightharpoonup> pty_process"
  next_ws :: ws_id
  next_pid :: pid
  console :: "console_entry list"

definition gateway0 :: gateway where
  \<comment> \<open>the state when the server starts listening\<close>
  "gateway0 =
     \<lparr>connectedClients = [], sockets = Map.empty, listeners = Map.empty,
      shellProcess = Map.empty, ptys = Map.empty, next_ws = 0, next_pid = 0, console = []\<rparr>"

subsection \<open>Inbound messages and the host\<close>

datatype in_msg =
    Init "jsstring option" "jsstring option" bool
      \<comment> \<open>\<open>{type: 'init', projectPath, sessionId, hasSession}\<close>; the handler does not read
          \<open>cols\<close> and \<open>rows\<close>\<close>
  | Input jsstring                            \<comment> \<open>\<open>{type: 'input', data}\<close>\<close>
  | Resize int int                            \<comment> \<open>\<open>{type: 'resize', cols, rows}\<close>\<close>
  | Claude_command jsstring "jsstring option \<times> jsstring option"
      \<comment> \<open>\<open>{type: 'claude-command', command, options: {projectPath, sessionId}}\<close>\<close>
  | Abort_session jsstring                    \<comment> \<open>\<open>{type: 'abort-session', sessionId}\<close>\<close>
  | Other_type                                \<comment> \<open>any other value with a \<open>type\<close> the handlers do not know\<close>

datatype parsed =
    Throws jsstring     \<comment> \<open>\<open>JSON.parse(message)\<close> throws a SyntaxError with this message\<close>
  | Json_null           \<comment> \<open>the payload is \<open>null\<close>: reading \<open>data.type\<close> throws a TypeError\<close>
  | Object in_msg

text \<open>
  What the code of other modules and of the platform does during one message: the
  outcome of \<open>pty.spawn\<close>, \<open>shellProcess.write\<close> and \<open>shellProcess.resize\<close> (the message
  of the exception, if one is thrown), the events \<open>spawnClaude\<close> writes to the socket
  and the exception it ends with, and the result of \<open>abortClaudeSession\<close>.
\<close>

record host =
  process_cwd :: jsstring
  pty_spawn_throws :: "jsstring option"
  pty_write_throws :: "jsstring option"
  pty_resize_throws :: "jsstring option"
  spawnClaude_events :: "jsstring list"
  spawnClaude_throws :: "jsstring option"
  abortClaudeSession_result :: bool

definition null_type_error :: jsstring where
  "null_type_error = js ''Cannot read properties of null (reading '' @ [39] @ js ''type'' @ [39] @ js '')''"

subsection \<open>Sockets in the state\<close>

definition send :: "ws_id \<Rightarrow> out_msg \<Rightarrow> gateway \<Rightarrow> gateway" where
  "send w msg gw =
     (case sockets gw w of
        None \<Rightarrow> gw
      | Some ws \<Rightarrow> gw\<lparr>sockets := (sockets gw)(w \<mapsto> ws_send msg ws)\<rparr>)"

definition is_open :: "ws_id \<Rightarrow> gateway \<Rightarrow> bool" where
  \<comment> \<open>\<open>ws.readyState === ws.OPEN\<close>\<close>
  "is_open w gw = (case sockets gw w of None \<Rightarrow> False | Some ws \<Rightarrow> readyState ws = OPEN)"

definition ws_close :: "ws_id \<Rightarrow> gateway \<Rightarrow> gateway" where
  \<comment> \<open>\<open>ws.close()\<close>: starts the closing handshake\<close>
  "ws_close w gw =
     (case sockets gw w of
        None \<Rightarrow> gw
      | Some ws \<Rightarrow>
          if readyState ws = CLOSED then gw
          else gw\<lparr>sockets := (sockets gw)(w \<mapsto> ws\<lparr>readyState := CLOSING\<rparr>)\<rparr>)"

definition log :: "console_entry \<Rightarrow> gateway \<Rightarrow> gateway" where
  "log entry gw = gw\<lparr>console := console gw @ [entry]\<rparr>"

definition set_add :: "'a \<Rightarrow> 'a list \<Rightarrow> 'a list" where
  \<comment> \<open>\<open>Set.prototype.add\<close>\<close>
  "set_add x xs = (if x \<in> set xs then xs else xs @ [x])"

definition set_delete :: "'a \<Rightarrow> 'a list \<Rightarrow> 'a list" where
  \<comment> \<open>\<open>Set.prototype.delete\<close>\<close>
  "set_delete x xs = removeAll x xs"

subsection \<open>Upgrade gate and router\<close>

definition unauthorized :: jsstring where
  \<comment> \<open>\<open>'HTTP/1.1 401 Unauthorized\r\n\r\n'\<close>\<close>
  "unauthorized = js ''HTTP/1.1 401 Unauthorized'' @ [13, 10, 13, 10]"

definition switching_protocols :: jsstring where
  \<comment> \<open>the status line of the handshake response that \<open>handleUpgrade\<close> writes\<close>
  "switching_protocols = js ''HTTP/1.1 101 Switching Protocols'' @ [13, 10]"

definition handleShellConnection :: "ws_id \<Rightarrow> gateway \<Rightarrow> gateway" where
  \<comment> \<open>\<open>let shellProcess = null\<close>, then the listeners are attached\<close>
  "handleShellConnection w gw =
     gw\<lparr>shellProcess := (shellProcess gw)(w := None),
        listeners := (listeners gw)(w \<mapsto> Shell)\<rparr>"

definition handleChatConnection :: "ws_id \<Rightarrow> gateway \<Rightarrow> gateway" where
  \<comment> \<open>\<open>connectedClients.add(ws)\<close>, then the listeners are attached\<close>
  "handleChatConnection w gw =
     gw\<lparr>connectedClients := set_add w (connectedClients gw),
        listeners := (listeners gw)(w \<mapsto> Chat)\<rparr>"

definition on_connection :: "ws_id \<Rightarrow> request \<Rightarrow> gateway \<Rightarrow> gateway" where
  \<comment> \<open>\<open>wss.on('connection', (ws, request) => ...)\<close>\<close>
  "on_connection w req gw =
     (if startsWith (url req) (js ''/shell'') then handleShellConnection w gw
      else if startsWith (url req) (js ''/ws'') then handleChatConnection w gw
      else ws_close w gw)"

definition handleUpgrade :: "request \<Rightarrow> raw_socket \<Rightarrow> gateway \<Rightarrow> raw_socket \<times> gateway" where
  \<comment> \<open>\<open>wss.handleUpgrade(request, socket, head, cb)\<close> of the \<open>ws\<close> library, for a
      well-formed upgrade request: it answers the handshake on the raw socket, creates
      the open WebSocket and calls \<open>cb\<close>, which emits \<open>connection\<close>\<close>
  "handleUpgrade req sock gw =
     (let w = next_ws gw;
          gw' = gw\<lparr>sockets := (sockets gw)(w \<mapsto> \<lparr>readyState = OPEN, sent = []\<rparr>),
                   next_ws := Suc w\<rparr>
      in (sock\<lparr>written := written sock @ [switching_protocols]\<rparr>, on_connection w req gw'))"

definition upgrade :: "request \<Rightarrow> raw_socket \<Rightarrow> gateway \<Rightarrow> raw_socket \<times> gateway" where
  \<comment> \<open>\<open>server.on('upgrade', ...)\<close>, after the session middleware has read the session\<close>
  "upgrade req sock gw =
     (if session_isAuthenticated req \<noteq> Some True
      then (sock\<lparr>written := written sock @ [unauthorized], destroyed := True\<rparr>, gw)
      else handleUpgrade req sock gw)"

subsection \<open>Chat connections\<close>

definition chat_catch :: "jsstring \<Rightarrow> ws_id \<Rightarrow> gateway \<Rightarrow> gateway" where
  \<comment> \<open>the \<open>catch\<close> block of the chat message listener\<close>
  "chat_catch e w gw = send w (Error_msg e) (log (Chat_WebSocket_error e) gw)"

definition chat_on_message :: "ws_id \<Rightarrow> host \<Rightarrow> parsed \<Rightarrow> gateway \<Rightarrow> gateway" where
  "chat_on_message w h message gw =
     (case message of
        Throws e \<Rightarrow> chat_catch e w gw
      | Json_null \<Rightarrow> chat_catch null_type_error w gw
      | Object (Claude_command cmd opts) \<Rightarrow>
          (let gw' = foldl (\<lambda>g ev. send w (Claude_event ev) g) gw (spawnClaude_events h)
           in case spawnClaude_throws h of
                None \<Rightarrow> gw'
              | Some e \<Rightarrow> chat_catch e w gw')
      | Object (Abort_session sid) \<Rightarrow>
          send w (Session_aborted sid (abortClaudeSession_result h)) gw
      | Object _ \<Rightarrow> gw)"

definition chat_on_close :: "ws_id \<Rightarrow> gateway \<Rightarrow> gateway" where
  \<comment> \<open>\<open>connectedClients.delete(ws)\<close>\<close>
  "chat_on_close w gw = gw\<lparr>connectedClients := set_delete w (connectedClients gw)\<rparr>"

subsection \<open>Shell connections\<close>

function js_of_nat :: "nat \<Rightarrow> jsstring" where
  \<comment> \<open>the decimal digits of a number\<close>
  "js_of_nat n = (if n < 10 then [48 + n] else js_of_nat (n div 10) @ [48 + n mod 10])"
  by pat_completeness auto
termination
  by (relation "measure id") auto

definition js_of_int :: "int \<Rightarrow> jsstring" where
  "js_of_int i = (if i < 0 then 45 # js_of_nat (nat (- i)) else js_of_nat (nat i))"

definition js_of_opt :: "jsstring option \<Rightarrow> jsstring" where
  \<comment> \<open>a value in a template literal; an absent field reads as undefined\<close>
  "js_of_opt v = (case v of None \<Rightarrow> js ''undefined'' | Some t \<Rightarrow> t)"

definition truthy :: "jsstring option \<Rightarrow> bool" where
  "truthy v = (case v of None \<Rightarrow> False | Some t \<Rightarrow> t \<noteq> [])"

definition welcomeMsg :: "bool \<Rightarrow> jsstring option \<Rightarrow> jsstring \<Rightarrow> jsstring" where
  "welcomeMsg hasSession sessionId projectPath =
     (if hasSession
      then [27] @ js ''[36mResuming Claude session '' @ js_of_opt sessionId @ js '' in: ''
             @ projectPath @ [27] @ js ''[0m'' @ [13, 10]
      else [27] @ js ''[36mStarting new Claude session in: '' @ projectPath
             @ [27] @ js ''[0m'' @ [13, 10])"

definition shellCommand :: "bool \<Rightarrow> jsstring option \<Rightarrow> jsstring \<Rightarrow> jsstring" where
  "shellCommand hasSession sessionId projectPath =
     (let claudeCommand =
            (if hasSession \<and> truthy sessionId
             then js ''claude --resume '' @ js_of_opt sessionId @ js '' || claude''
             else js ''claude'')
      in js ''cd '' @ [34] @ projectPath @ [34] @ js '' && '' @ claudeCommand)"

definition error_banner :: "jsstring \<Rightarrow> jsstring" where
  \<comment> \<open>\<open>`\r\n\x1b[31mError: ${message}\x1b[0m\r\n`\<close>\<close>
  "error_banner e = [13, 10, 27] @ js ''[31mError: '' @ e @ [27] @ js ''[0m'' @ [13, 10]"

definition exit_banner :: "int \<Rightarrow> nat option \<Rightarrow> jsstring" where
  "exit_banner exitCode signal =
     [13, 10, 27] @ js ''[33mProcess exited with code '' @ js_of_int exitCode
       @ (case signal of
            None \<Rightarrow> []
          | Some sg \<Rightarrow> if sg = 0 then [] else js '' ('' @ js_of_nat sg @ js '')'')
       @ [27] @ js ''[0m'' @ [13, 10]"

definition pty_spawn :: "jsstring \<Rightarrow> ws_id \<Rightarrow> gateway \<Rightarrow> gateway" where
  \<comment> \<open>a successful \<open>pty.spawn('bash', ['-c', shellCommand], {cols: 80, rows: 24, ...})\<close>
      followed by the assignment to \<open>shellProcess\<close>; the new process is \<open>next_pid gw\<close>\<close>
  "pty_spawn cmd w gw =
     gw\<lparr>ptys := (ptys gw)(next_pid gw \<mapsto>
            \<lparr>command = cmd, cols = 80, rows = 24, input_written = [],
             killed = False, exited = False, owner = w\<rparr>),
        shellProcess := (shellProcess gw)(w \<mapsto> next_pid gw),
        next_pid := Suc (next_pid gw)\<rparr>"

definition pty_update :: "pid \<Rightarrow> (pty_process \<Rightarrow> pty_process) \<Rightarrow> gateway \<Rightarrow> gateway" where
  "pty_update p f gw =
     (case ptys gw p of None \<Rightarrow> gw | Some pr \<Rightarrow> gw\<lparr>ptys := (ptys gw)(p \<mapsto> f pr)\<rparr>)"

definition shell_catch :: "jsstring \<Rightarrow> ws_id \<Rightarrow> gateway \<Rightarrow> gateway" where
  \<comment> \<open>the outer \<open>catch\<close> block of the shell message listener\<close>
  "shell_catch e w gw =
     (let gw' = log (Shell_WebSocket_error e) gw
      in if is_open w gw' then send w (Output (error_banner e)) gw' else gw')"

definition shell_init ::
  "ws_id \<Rightarrow> host \<Rightarrow> jsstring option \<Rightarrow> jsstring option \<Rightarrow> bool \<Rightarrow> gateway \<Rightarrow> gateway" where
  "shell_init w h dataProjectPath sessionId hasSession gw =
     (let projectPath = (if truthy dataProjectPath then js_of_opt dataProjectPath else process_cwd h);
          gw' = send w (Output (welcomeMsg hasSession sessionId projectPath)) gw
      in case pty_spawn_throws h of
           None \<Rightarrow> pty_spawn (shellCommand hasSession sessionId projectPath) w gw'
         | Some e \<Rightarrow> send w (Output (error_banner e)) (log (Error_spawning_process e) gw'))"

definition shell_input :: "ws_id \<Rightarrow> host \<Rightarrow> jsstring \<Rightarrow> gateway \<Rightarrow> gateway" where
  "shell_input w h d gw =
     (case shellProcess gw w of
        None \<Rightarrow> log No_active_shell_process gw
      | Some p \<Rightarrow>
          (case pty_write_throws h of
             None \<Rightarrow> pty_update p (\<lambda>pr. pr\<lparr>input_written := input_written pr @ [d]\<rparr>) gw
           | Some e \<Rightarrow> log (Error_writing_to_shell e) gw))"

definition shell_resize :: "ws_id \<Rightarrow> host \<Rightarrow> int \<Rightarrow> int \<Rightarrow> gateway \<Rightarrow> gateway" where
  "shell_resize w h c r gw =
     (case shellProcess gw w of
        None \<Rightarrow> gw
      | Some p \<Rightarrow>
          (case pty_resize_throws h of
             None \<Rightarrow> pty_update p (\<lambda>pr. pr\<lparr>cols := c, rows := r\<rparr>) gw
           | Some e \<Rightarrow> shell_catch e w gw))"

definition shell_on_message :: "ws_id \<Rightarrow> host \<Rightarrow> parsed \<Rightarrow> gateway \<Rightarrow> gateway" where
  "shell_on_message w h message gw =
     (case message of
        Throws e \<Rightarrow> shell_catch e w gw
      | Json_null \<Rightarrow> shell_catch null_type_error w gw
      | Object (Init dataProjectPath sessionId hasSession) \<Rightarrow>
          shell_init w h dataProjectPath sessionId hasSession gw
      | Object (Input d) \<Rightarrow> shell_input w h d gw
      | Object (Resize c r) \<Rightarrow> shell_resize w h c r gw
      | Object _ \<Rightarrow> gw)"

definition shell_on_close :: "ws_id \<Rightarrow> gateway \<Rightarrow> gateway" where
  \<comment> \<open>\<open>if (shellProcess && shellProcess.kill) shellProcess.kill()\<close>\<close>
  "shell_on_close w gw =
     (case shellProcess gw w of
        None \<Rightarrow> gw
      | Some p \<Rightarrow> pty_update p (\<lambda>pr. pr\<lparr>killed := True\<rparr>) gw)"

definition shell_on_error :: "ws_id \<Rightarrow> jsstring \<Rightarrow> gateway \<Rightarrow> gateway" where
  "shell_on_error w e gw = log (Shell_WebSocket_error e) gw"

definition pty_onData :: "pid \<Rightarrow> jsstring \<Rightarrow> gateway \<Rightarrow> gateway option" where
  \<comment> \<open>the \<open>onData\<close> callback of process \<open>p\<close>, on the socket of its closure\<close>
  "pty_onData p chunk gw =
     (case ptys gw p of
        None \<Rightarrow> Some gw
      | Some pr \<Rightarrow>
          (case sockets gw (owner pr) of
             None \<Rightarrow> Some gw
           | Some ws \<Rightarrow>
               (case onData ws chunk of
                  None \<Rightarrow> None
                | Some ws' \<Rightarrow> Some (gw\<lparr>sockets := (sockets gw)(owner pr \<mapsto> ws')\<rparr>))))"

definition pty_onExit :: "pid \<Rightarrow> int \<Rightarrow> nat option \<Rightarrow> gateway \<Rightarrow> gateway" where
  \<comment> \<open>the \<open>onExit\<close> callback of process \<open>p\<close>: it clears the \<open>shellProcess\<close> variable of
      its closure, whichever process that variable holds\<close>
  "pty_onExit p exitCode signal gw =
     (case ptys gw p of
        None \<Rightarrow> gw
      | Some pr \<Rightarrow>
          (let w = owner pr;
               gw' = (if is_open w gw then send w (Output (exit_banner exitCode signal)) gw else gw)
           in gw'\<lparr>shellProcess := (shellProcess gw')(w := None)\<rparr>))"

subsection \<open>Notification fan-out\<close>

definition notify :: "out_msg \<Rightarrow> gateway \<Rightarrow> gateway" where
  \<comment> \<open>\<open>connectedClients.forEach(client => { if (client.readyState === client.OPEN)
      client.send(updateMessage) })\<close>\<close>
  "notify updateMessage gw =
     foldl (\<lambda>g client. if is_open client g then send client updateMessage g else g)
       gw (connectedClients gw)"

definition debouncedUpdate :: "jsstring list \<Rightarrow> jsstring \<Rightarrow> jsstring \<Rightarrow> jsstring \<Rightarrow> gateway \<Rightarrow> gateway" where
  \<comment> \<open>the body of the timer callback, once \<open>getProjects()\<close> has returned \<open>updatedProjects\<close>\<close>
  "debouncedUpdate updatedProjects timestamp eventType changedFile gw =
     notify (Projects_updated updatedProjects timestamp eventType changedFile) gw"

subsection \<open>Events\<close>

text \<open>
  The gateway runs one callback at a time. An event is the call of one of its callbacks
  by the platform, or the arrival of the peer's close frame, at which the \<open>ws\<close> library
  moves the socket to CLOSING. The library sets \<open>readyState\<close> to CLOSED before it emits
  \<open>close\<close>, emits nothing on a socket after that, and emits \<open>close\<close> after \<open>error\<close>.
  A process sends no data after its exit event. The result \<open>None\<close> means that the
  callback does not return, or (an \<open>error\<close> event on a chat socket, which has no error
  listener) that the exception is not caught.
\<close>

datatype event =
    Upgrade request
  | Ws_message ws_id host parsed
  | Ws_closing ws_id       \<comment> \<open>the close frame of the peer arrives; no callback runs\<close>
  | Ws_close ws_id
  | Ws_error ws_id jsstring
  | Pty_data pid jsstring
  | Pty_exit pid int "nat option"
  | Projects_changed "jsstring list" jsstring jsstring jsstring

definition live_socket :: "ws_id \<Rightarrow> gateway \<Rightarrow> bool" where
  "live_socket w gw = (case sockets gw w of None \<Rightarrow> False | Some ws \<Rightarrow> readyState ws \<noteq> CLOSED)"

definition live_pty :: "pid \<Rightarrow> gateway \<Rightarrow> bool" where
  "live_pty p gw = (case ptys gw p of None \<Rightarrow> False | Some pr \<Rightarrow> \<not> exited pr)"

definition emit_close :: "ws_id \<Rightarrow> gateway \<Rightarrow> gateway" where
  "emit_close w gw =
     (case sockets gw w of
        None \<Rightarrow> gw
      | Some ws \<Rightarrow>
          (let gw' = gw\<lparr>sockets := (sockets gw)(w \<mapsto> ws\<lparr>readyState := CLOSED\<rparr>)\<rparr>
           in case listeners gw w of
                None \<Rightarrow> gw'
              | Some Shell \<Rightarrow> shell_on_close w gw'
              | Some Chat \<Rightarrow> chat_on_close w gw'))"

fun step :: "event \<Rightarrow> gateway \<Rightarrow> gateway option" where
  "step (Upgrade req) gw = Some (snd (upgrade req \<lparr>written = [], destroyed = False\<rparr> gw))"
| "step (Ws_message w h message) gw =
     (if live_socket w gw
      then (case listeners gw w of
              None \<Rightarrow> Some gw
            | Some Shell \<Rightarrow> Some (shell_on_message w h message gw)
            | Some Chat \<Rightarrow> Some (chat_on_message w h message gw))
      else Some gw)"
| "step (Ws_closing w) gw = Some (ws_close w gw)"
| "step (Ws_close w) gw = (if live_socket w gw then Some (emit_close w gw) else Some gw)"
| "step (Ws_error w e) gw =
     (if live_socket w gw
      then (case listeners gw w of
              None \<Rightarrow> None
            | Some Shell \<Rightarrow> Some (shell_on_error w e gw)
            | Some Chat \<Rightarrow> None)
      else Some gw)"
| "step (Pty_data p chunk) gw = (if live_pty p gw then pty_onData p chunk gw else Some gw)"
| "step (Pty_exit p exitCode signal) gw =
     (if live_pty p gw
      then Some (pty_onExit p exitCode signal (pty_update p (\<lambda>pr. pr\<lparr>exited := True\<rparr>) gw))
      else Some gw)"
| "step (Projects_changed projects timestamp eventType changedFile) gw =
     Some (debouncedUpdate projects timestamp eventType changedFile gw)"

fun run :: "event list \<Rightarrow> gateway \<Rightarrow> gateway option" where
  "run [] gw = Some gw"
| "run (ev # evs) gw = (case step ev gw of None \<Rightarrow> None | Some gw' \<Rightarrow> run evs gw')"

subsection \<open>Observations and example inputs\<close>

definition sent_on :: "ws_id \<Rightarrow> gateway option \<Rightarrow> out_msg list" where
  \<comment> \<open>the messages sent on a socket so far\<close>
  "sent_on w r =
     (case r of
        None \<Rightarrow> []
      | Some gw \<Rightarrow> (case sockets gw w of None \<Rightarrow> [] | Some ws \<Rightarrow> sent ws))"

definition killed_in :: "pid \<Rightarrow> gateway option \<Rightarrow> bool option" where
  "killed_in p r = (case r of None \<Rightarrow> None | Some gw \<Rightarrow> map_option killed (ptys gw p))"

definition exited_in :: "pid \<Rightarrow> gateway option \<Rightarrow> bool option" where
  "exited_in p r = (case r of None \<Rightarrow> None | Some gw \<Rightarrow> map_option exited (ptys gw p))"

definition chat_req :: request where
  "chat_req = \<lparr>url = js ''/ws'', session_isAuthenticated = Some True\<rparr>"

definition shell_req :: request where
  "shell_req = \<lparr>url = js ''/shell'', session_isAuthenticated = Some True\<rparr>"

definition host0 :: host where
  \<comment> \<open>a host on which nothing fails\<close>
  "host0 =
     \<lparr>process_cwd = js ''/srv'', pty_spawn_throws = None, pty_write_throws = None,
      pty_resize_throws = None, spawnClaude_events = [], spawnClaude_throws = None,
      abortClaudeSession_result = False\<rparr>"

subsection \<open>Notions used in the proofs\<close>

text \<open>
  Two states have the same connections when they differ at most in what has been sent on
  the sockets, in the processes and in the console; they have the same processes when
  the process table and the \<open>shellProcess\<close> variables agree.
\<close>

definition same_conn :: "gateway \<Rightarrow> gateway \<Rightarrow> bool" where
  "same_conn g g' \<longleftrightarrow>
     connectedClients g' = connectedClients g \<and> listeners g' = listeners g
     \<and> next_ws g' = next_ws g
     \<and> (\<forall>w. live_socket w g' = live_socket w g)
     \<and> (\<forall>w. is_open w g' = is_open w g)
     \<and> (\<forall>w. (sockets g' w = None) = (sockets g w = None))"

definition same_procs :: "gateway \<Rightarrow> gateway \<Rightarrow> bool" where
  "same_procs g g' \<longleftrightarrow>
     shellProcess g' = shellProcess g \<and> ptys g' = ptys g \<and> next_pid g' = next_pid g"

text \<open>The invariant of the Broadcast Registry.\<close>

definition reg_inv :: "gateway \<Rightarrow> bool" where
  "reg_inv g \<longleftrightarrow>
     distinct (connectedClients g)
     \<and> (\<forall>w. w \<in> set (connectedClients g) \<longleftrightarrow> listeners g w = Some Chat \<and> live_socket w g)
     \<and> (\<forall>w. sockets g w \<noteq> None \<longrightarrow> w < next_ws g)
     \<and> (\<forall>w. listeners g w \<noteq> None \<longrightarrow> sockets g w \<noteq> None)"

text \<open>
  The process references: a \<open>shellProcess\<close> variable holds a process that was spawned
  and whose callbacks belong to the same socket. A process is unreferenced when it was
  spawned and no \<open>shellProcess\<close> variable holds it.
\<close>

definition refs_below :: "gateway \<Rightarrow> bool" where
  "refs_below g \<longleftrightarrow>
     (\<forall>w p. shellProcess g w = Some p \<longrightarrow>
        p < next_pid g \<and> map_option owner (ptys g p) = Some w)"




text \<open>Example inputs for the closed instances below.\<close>

definition other_req :: request where
  "other_req = \<lparr>url = js ''/other'', session_isAuthenticated = Some True\<rparr>"

definition fresh_gateway :: gateway where
  "fresh_gateway = gateway0\<lparr>sockets := [0 \<mapsto> \<lparr>readyState = OPEN, sent = []\<rparr>], next_ws := 1\<rparr>"

definition chat_and_shell :: gateway where
  "chat_and_shell =
     \<lparr>connectedClients = [0],
      sockets = [0 \<mapsto> \<lparr>readyState = OPEN, sent = []\<rparr>, 1 \<mapsto> \<lparr>readyState = OPEN, sent = []\<rparr>],
      listeners = [0 \<mapsto> Chat, 1 \<mapsto> Shell],
      shellProcess = Map.empty, ptys = Map.empty, next_ws = 2, next_pid = 0, console = []\<rparr>"

definition init_msg :: parsed where
  "init_msg = Object (Init (Some (js ''/home/u/app'')) None False)"

definition bad_write :: host where
  "bad_write = host0\<lparr>pty_write_throws := Some (js ''EIO'')\<rparr>"

definition running_shell :: "event list" where
  "running_shell = [Upgrade shell_req, Ws_message 0 host0 init_msg]"

text \<open>
  The sentinel text of the claims about the scanner, its URL, and what may follow a URL
  in a chunk so that the URL of a match ends there: the end of the chunk, or a character
  outside \<open>[^\s\x1b\x07]\<close>.
\<close>

definition sentinel :: jsstring where
  "sentinel = js ''OPEN_URL:http://example.com/x''"

definition sentinel_url :: jsstring where
  "sentinel_url = js ''http://example.com/x''"

definition url_stop :: "jsstring \<Rightarrow> bool" where
  "url_stop post = (case post of [] \<Rightarrow> True | c # _ \<Rightarrow> is_space c \<or> c = 27 \<or> c = 7)"

definition visit_then_xdg :: jsstring where
  "visit_then_xdg = js ''Visit: https://b xdg-open https://a''"

definition sentinel_chunk_pre :: jsstring where
  "sentinel_chunk_pre = js ''Opening browser... ''"

definition sentinel_chunk_post :: jsstring where
  "sentinel_chunk_post = [13, 10] @ js ''done''"

definition no_delimiter_chunk :: jsstring where
  "no_delimiter_chunk = js ''OPEN_URL:http://example.com/xyz''"

lemmas handler_defs =
  upgrade_def handleUpgrade_def on_connection_def handleShellConnection_def
  handleChatConnection_def ws_close_def send_def ws_send_def is_open_def log_def
  set_add_def set_delete_def chat_catch_def chat_on_message_def chat_on_close_def
  shell_catch_def shell_init_def shell_input_def shell_resize_def shell_on_message_def
  shell_on_close_def shell_on_error_def pty_spawn_def pty_update_def pty_onExit_def
  notify_def debouncedUpdate_def live_socket_def live_pty_def emit_close_def
  startsWith_def js_def gateway0_def Let_def

lemmas example_defs = chat_req_def shell_req_def other_req_def host0_def fresh_gateway_def
  chat_and_shell_def init_msg_def bad_write_def

lemmas pattern_defs = pattern_open_cmd_def pattern_OPEN_URL_def pattern_Opening_def
  pattern_Visit_def pattern_View_at_def pattern_Browse_to_def url_group_def
  url_group_source_def lits_def

lemmas scan_eval = matchAll.simps exec_def atoms_of_def pattern_defs js_def char_eq_def canonicalize_def
  is_space_def substring_def

section \<open>Frame lemmas\<close>

lemma same_conn_refl [simp]: "same_conn g g"
  by (simp add: same_conn_def)

lemma same_conn_trans: "same_conn g g' \<Longrightarrow> same_conn g' g'' \<Longrightarrow> same_conn g g''"
  by (simp add: same_conn_def)

lemma same_procs_refl [simp]: "same_procs g g"
  by (simp add: same_procs_def)

lemma same_procs_trans: "same_procs g g' \<Longrightarrow> same_procs g' g'' \<Longrightarrow> same_procs g g''"
  by (simp add: same_procs_def)

lemma send_same_conn: "same_conn g (send w msg g)"
  by (auto simp: same_conn_def send_def ws_send_def live_socket_def is_open_def split: option.splits)

lemma send_same_procs: "same_procs g (send w msg g)"
  by (auto simp: same_procs_def send_def split: option.splits)

lemma log_same_conn: "same_conn g (log e g)"
  by (auto simp: same_conn_def log_def live_socket_def is_open_def)

lemma log_same_procs: "same_procs g (log e g)"
  by (auto simp: same_procs_def log_def)

lemma pty_update_same_conn: "same_conn g (pty_update p f g)"
  by (auto simp: same_conn_def pty_update_def live_socket_def is_open_def split: option.splits)

lemma pty_spawn_same_conn: "same_conn g (pty_spawn cmd w g)"
  by (auto simp: same_conn_def pty_spawn_def live_socket_def is_open_def)

lemma shell_catch_same_conn: "same_conn g (shell_catch e w g)"
  unfolding shell_catch_def Let_def
  by (auto intro: same_conn_trans [OF log_same_conn send_same_conn] log_same_conn)

lemma shell_catch_same_procs: "same_procs g (shell_catch e w g)"
  unfolding shell_catch_def Let_def
  by (auto intro: same_procs_trans [OF log_same_procs send_same_procs] log_same_procs)

lemma chat_catch_same_conn: "same_conn g (chat_catch e w g)"
  unfolding chat_catch_def
  by (rule same_conn_trans [OF log_same_conn send_same_conn])

lemma chat_catch_same_procs: "same_procs g (chat_catch e w g)"
  unfolding chat_catch_def
  by (rule same_procs_trans [OF log_same_procs send_same_procs])

lemma foldl_send_same_conn: "same_conn g (foldl (\<lambda>g ev. send w (f ev) g) g evs)"
proof (induction evs arbitrary: g)
  case Nil
  show ?case by simp
next
  case (Cons ev evs)
  show ?case using same_conn_trans [OF send_same_conn Cons.IH] by simp
qed

lemma foldl_send_same_procs: "same_procs g (foldl (\<lambda>g ev. send w (f ev) g) g evs)"
proof (induction evs arbitrary: g)
  case Nil
  show ?case by simp
next
  case (Cons ev evs)
  show ?case using same_procs_trans [OF send_same_procs Cons.IH] by simp
qed

lemma chat_on_message_same_conn: "same_conn g (chat_on_message w h message g)"
  unfolding chat_on_message_def Let_def
  by (auto split: parsed.splits in_msg.splits option.splits
      intro: chat_catch_same_conn send_same_conn foldl_send_same_conn
        same_conn_trans [OF foldl_send_same_conn chat_catch_same_conn])

lemma chat_on_message_same_procs: "same_procs g (chat_on_message w h message g)"
  unfolding chat_on_message_def Let_def
  by (auto split: parsed.splits in_msg.splits option.splits
      intro: chat_catch_same_procs send_same_procs foldl_send_same_procs
        same_procs_trans [OF foldl_send_same_procs chat_catch_same_procs])

lemma shell_init_same_conn: "same_conn g (shell_init w h pp sid hs g)"
  unfolding shell_init_def Let_def
  by (auto split: option.splits
      intro: same_conn_trans [OF send_same_conn pty_spawn_same_conn]
        same_conn_trans [OF send_same_conn same_conn_trans [OF log_same_conn send_same_conn]])

lemma shell_on_message_same_conn: "same_conn g (shell_on_message w h message g)"
  unfolding shell_on_message_def shell_input_def shell_resize_def
  by (auto split: parsed.splits in_msg.splits option.splits
      intro: shell_catch_same_conn shell_init_same_conn log_same_conn pty_update_same_conn)

lemma on_match_readyState: "readyState (fst (on_match p d mt st)) = readyState (fst st)"
  by (auto simp: on_match_def ws_send_def Let_def split: prod.splits)

lemma scan_pattern_readyState:
  "scan_pattern p d i st = Some st' \<Longrightarrow> readyState (fst st') = readyState (fst st)"
proof (induction p d i st rule: scan_pattern.induct)
  case (1 pattern data i st)
  show ?case
  proof (cases "exec pattern data i")
    case None
    with "1.prems" show ?thesis by (simp add: scan_pattern.simps)
  next
    case (Some mt)
    obtain b g e where mt: "mt = (b, g, e)" by (cases mt) auto
    from "1.prems" Some mt have adv: "\<not> e \<le> i"
      by (auto simp: scan_pattern.simps [of pattern data i] split: if_splits)
    with "1.prems" Some mt
    have rec: "scan_pattern pattern data e (on_match pattern data (b, g, e) st) = Some st'"
      by (simp add: scan_pattern.simps [of pattern data i])
    from "1.IH" [OF Some [unfolded mt] refl refl adv rec] show ?thesis
      by (simp add: on_match_readyState)
  qed
qed

lemma scan_all_readyState:
  "scan_all ps d st = Some st' \<Longrightarrow> readyState (fst st') = readyState (fst st)"
proof (induction ps arbitrary: st)
  case Nil
  then show ?case by simp
next
  case (Cons p ps)
  then show ?case
    by (auto split: option.splits dest!: scan_pattern_readyState)
qed

lemma onData_readyState: "onData ws d = Some ws' \<Longrightarrow> readyState ws' = readyState ws"
  by (auto simp: onData_def ws_send_def split: if_splits option.splits
      dest!: scan_all_readyState)

lemma pty_onData_same_conn: "pty_onData p chunk g = Some g' \<Longrightarrow> same_conn g g'"
  by (auto simp: pty_onData_def same_conn_def live_socket_def is_open_def
      split: option.splits if_splits dest!: onData_readyState)

lemma pty_onData_same_procs: "pty_onData p chunk g = Some g' \<Longrightarrow> same_procs g g'"
  by (auto simp: pty_onData_def same_procs_def split: option.splits)

lemma pty_onExit_same_conn: "same_conn g (pty_onExit p c sg g)"
proof -
  have *: "same_conn g (g'\<lparr>shellProcess := x\<rparr>)" if "same_conn g g'" for g' x
    using that by (simp add: same_conn_def live_socket_def is_open_def)
  show ?thesis
    unfolding pty_onExit_def Let_def
    by (auto split: option.splits intro!: * send_same_conn)
qed

lemma notify_step_same_conn:
  "same_conn g (foldl (\<lambda>g client. if is_open client g then send client msg g else g) g cs)"
proof (induction cs arbitrary: g)
  case Nil
  show ?case by simp
next
  case (Cons c cs)
  show ?case
    using same_conn_trans [OF send_same_conn Cons.IH] Cons.IH by simp
qed

lemma notify_same_conn: "same_conn g (notify msg g)"
proof -
  have "same_conn g (foldl (\<lambda>g client. if is_open client g then send client msg g else g) g cs)"
    for cs by (rule notify_step_same_conn)
  then show ?thesis by (simp add: notify_def)
qed

lemma notify_same_procs: "same_procs g (notify msg g)"
proof -
  have "same_procs g (foldl (\<lambda>g client. if is_open client g then send client msg g else g) g cs)"
    for cs
  proof (induction cs arbitrary: g)
    case Nil
    show ?case by simp
  next
    case (Cons c cs)
    show ?case
      using same_procs_trans [OF send_same_procs Cons.IH] Cons.IH by simp
  qed
  then show ?thesis by (simp add: notify_def)
qed

lemma ws_close_same_procs: "same_procs g (ws_close w g)"
  by (auto simp: same_procs_def ws_close_def split: option.splits)

section \<open>The registry invariant\<close>

lemma reg_inv_same_conn: "reg_inv g \<Longrightarrow> same_conn g g' \<Longrightarrow> reg_inv g'"
  by (simp add: reg_inv_def same_conn_def)

lemma reg_inv_gateway0: "reg_inv gateway0"
  by (simp add: reg_inv_def gateway0_def live_socket_def)

lemma reg_inv_upgrade: "reg_inv g \<Longrightarrow> reg_inv (snd (upgrade req sock g))"
  unfolding upgrade_def handleUpgrade_def on_connection_def Let_def
    handleShellConnection_def handleChatConnection_def ws_close_def
  by (auto simp: reg_inv_def live_socket_def set_add_def split: option.splits if_splits)

lemma emit_close_fields:
  "listeners (emit_close w g) = listeners g"
  "next_ws (emit_close w g) = next_ws g"
  "(sockets (emit_close w g) w' = None) = (sockets g w' = None)"
  "live_socket w' (emit_close w g) = (live_socket w' g \<and> w' \<noteq> w)"
  "connectedClients (emit_close w g) =
     (if sockets g w \<noteq> None \<and> listeners g w = Some Chat
      then removeAll w (connectedClients g) else connectedClients g)"
  unfolding emit_close_def Let_def shell_on_close_def chat_on_close_def pty_update_def set_delete_def
  by (auto simp: live_socket_def split: option.splits handler.splits)

lemma reg_inv_emit_close: "reg_inv g \<Longrightarrow> reg_inv (emit_close w g)"
  unfolding reg_inv_def emit_close_fields
  by (auto simp: distinct_removeAll)

lemma ws_close_same_conn_but_open:
  "connectedClients (ws_close w g) = connectedClients g"
  "listeners (ws_close w g) = listeners g"
  "next_ws (ws_close w g) = next_ws g"
  "live_socket w' (ws_close w g) = live_socket w' g"
  "(sockets (ws_close w g) w' = None) = (sockets g w' = None)"
  by (auto simp: ws_close_def live_socket_def split: option.splits)

lemma reg_inv_ws_close: "reg_inv g \<Longrightarrow> reg_inv (ws_close w g)"
  unfolding reg_inv_def ws_close_same_conn_but_open by simp

lemma reg_inv_step: "reg_inv g \<Longrightarrow> step ev g = Some g' \<Longrightarrow> reg_inv g'"
proof (cases ev)
  case (Upgrade req)
  assume "reg_inv g" "step ev g = Some g'"
  with Upgrade show ?thesis using reg_inv_upgrade by auto
next
  case (Ws_message w h message)
  assume "reg_inv g" "step ev g = Some g'"
  with Ws_message show ?thesis
    by (auto split: if_splits option.splits handler.splits
        intro: reg_inv_same_conn [OF _ shell_on_message_same_conn]
          reg_inv_same_conn [OF _ chat_on_message_same_conn])
next
  case (Ws_closing w)
  assume "reg_inv g" "step ev g = Some g'"
  with Ws_closing show ?thesis using reg_inv_ws_close by auto
next
  case (Ws_close w)
  assume "reg_inv g" "step ev g = Some g'"
  with Ws_close show ?thesis using reg_inv_emit_close by (auto split: if_splits)
next
  case (Ws_error w e)
  assume "reg_inv g" "step ev g = Some g'"
  with Ws_error show ?thesis
    by (auto simp: shell_on_error_def split: if_splits option.splits handler.splits
        intro: reg_inv_same_conn [OF _ log_same_conn])
next
  case (Pty_data p chunk)
  assume "reg_inv g" "step ev g = Some g'"
  with Pty_data show ?thesis
    by (auto split: if_splits intro: reg_inv_same_conn dest: pty_onData_same_conn)
next
  case (Pty_exit p c sg)
  assume "reg_inv g" "step ev g = Some g'"
  with Pty_exit show ?thesis
    by (auto split: if_splits
        intro: reg_inv_same_conn [OF _ same_conn_trans [OF pty_update_same_conn pty_onExit_same_conn]])
next
  case (Projects_changed ps ts et cf)
  assume "reg_inv g" "step ev g = Some g'"
  with Projects_changed show ?thesis
    by (auto simp: debouncedUpdate_def intro: reg_inv_same_conn [OF _ notify_same_conn])
qed

lemma reg_inv_run: "reg_inv g \<Longrightarrow> run evs g = Some g' \<Longrightarrow> reg_inv g'"
  by (induction evs arbitrary: g) (auto split: option.splits dest: reg_inv_step)

lemma notify_foldl:
  "distinct cs \<Longrightarrow>
   foldl (\<lambda>g client. if is_open client g then send client msg g else g) g cs =
   g\<lparr>sockets := (\<lambda>w. if w \<in> set cs \<and> is_open w g
                      then map_option (\<lambda>ws. ws\<lparr>sent := sent ws @ [msg]\<rparr>) (sockets g w)
                      else sockets g w)\<rparr>"
proof (induction cs arbitrary: g)
  case Nil
  show ?case by simp
next
  case (Cons c cs)
  let ?g1 = "if is_open c g then send c msg g else g"
  have open_eq: "is_open w ?g1 = is_open w g" for w
    using send_same_conn [of g c msg] by (simp add: same_conn_def)
  have socks: "sockets ?g1 w = (if w = c \<and> is_open c g
        then map_option (\<lambda>ws. ws\<lparr>sent := sent ws @ [msg]\<rparr>) (sockets g c) else sockets g w)" for w
    by (auto simp: send_def ws_send_def is_open_def split: option.splits)
  have rest: "?g1\<lparr>sockets := f\<rparr> = g\<lparr>sockets := f\<rparr>" for f
    by (auto simp: send_def split: option.splits)
  from Cons.prems have d: "distinct cs" and nc: "c \<notin> set cs" by simp_all
  have "foldl (\<lambda>g client. if is_open client g then send client msg g else g) g (c # cs)
        = foldl (\<lambda>g client. if is_open client g then send client msg g else g) ?g1 cs"
    by simp
  also have "\<dots> = ?g1\<lparr>sockets := (\<lambda>w. if w \<in> set cs \<and> is_open w ?g1
                      then map_option (\<lambda>ws. ws\<lparr>sent := sent ws @ [msg]\<rparr>) (sockets ?g1 w)
                      else sockets ?g1 w)\<rparr>"
    by (rule Cons.IH [OF d])
  also have "\<dots> = g\<lparr>sockets := (\<lambda>w. if w \<in> set (c # cs) \<and> is_open w g
                      then map_option (\<lambda>ws. ws\<lparr>sent := sent ws @ [msg]\<rparr>) (sockets g w)
                      else sockets g w)\<rparr>"
    unfolding rest open_eq socks using nc by (auto simp: fun_eq_iff)
  finally show ?case .
qed

section \<open>Process references\<close>


lemma on_connection_procs:
  "ptys (on_connection w req g) = ptys g"
  "next_pid (on_connection w req g) = next_pid g"
  "shellProcess (on_connection w req g) = shellProcess g
   \<or> shellProcess (on_connection w req g) = (shellProcess g)(w := None)"
  by (simp_all add: on_connection_def handleShellConnection_def handleChatConnection_def
      ws_close_def split: option.splits)









lemma same_procs_refs_below: "same_procs g g' \<Longrightarrow> refs_below g \<Longrightarrow> refs_below g'"
  by (simp add: same_procs_def refs_below_def)

lemma pty_update_refs_below:
  "refs_below g \<Longrightarrow> (\<And>pr. owner (f pr) = owner pr) \<Longrightarrow> refs_below (pty_update q f g)"
  by (fastforce simp: refs_below_def pty_update_def split: option.splits)

lemma pty_spawn_refs_below: "refs_below g \<Longrightarrow> refs_below (pty_spawn cmd w g)"
  by (auto simp: refs_below_def pty_spawn_def less_Suc_eq)

lemma upgrade_refs_below:
  assumes "refs_below g"
  shows "refs_below (snd (upgrade req sock g))"
proof (cases "session_isAuthenticated req \<noteq> Some True")
  case True
  with assms show ?thesis by (simp add: upgrade_def)
next
  case False
  define g1 where "g1 = g\<lparr>sockets := (sockets g)(next_ws g \<mapsto> \<lparr>readyState = OPEN, sent = []\<rparr>),
                   next_ws := Suc (next_ws g)\<rparr>"
  have g1: "refs_below g1"
    using assms by (simp add: g1_def refs_below_def)
  have u: "snd (upgrade req sock g) = on_connection (next_ws g) req g1"
    using False by (simp add: upgrade_def handleUpgrade_def Let_def g1_def)
  show ?thesis
    unfolding u using g1 on_connection_procs [of "next_ws g" req g1]
    by (auto simp: refs_below_def split: if_splits)
qed

lemma shell_on_message_refs_below:
  assumes "refs_below g"
  shows "refs_below (shell_on_message w h message g)"
proof -
  have sp: "same_procs g g' \<Longrightarrow> refs_below g'" for g'
    using same_procs_refs_below [OF _ assms] by blast
  show ?thesis
  proof (cases message)
    case (Throws e)
    with sp [OF shell_catch_same_procs] show ?thesis by (simp add: shell_on_message_def)
  next
    case Json_null
    with sp [OF shell_catch_same_procs] show ?thesis by (simp add: shell_on_message_def)
  next
    case (Object msg)
    show ?thesis
    proof (cases msg)
      case (Init pp sid hs)
      define g1 where
        "g1 = send w (Output (welcomeMsg hs sid (if truthy pp then js_of_opt pp else process_cwd h))) g"
      have g1: "refs_below g1" unfolding g1_def by (rule sp [OF send_same_procs])
      show ?thesis
      proof (cases "pty_spawn_throws h")
        case None
        with Object Init pty_spawn_refs_below [OF g1] show ?thesis
          by (simp add: shell_on_message_def shell_init_def Let_def g1_def)
      next
        case (Some e)
        have "same_procs g1 (send w (Output (error_banner e)) (log (Error_spawning_process e) g1))"
          by (rule same_procs_trans [OF log_same_procs send_same_procs])
        from same_procs_refs_below [OF this g1] Object Init Some show ?thesis
          by (simp add: shell_on_message_def shell_init_def Let_def g1_def)
      qed
    next
      case (Input d)
      with Object sp [OF log_same_procs]
        pty_update_refs_below [OF assms, of "\<lambda>pr. pr\<lparr>input_written := input_written pr @ [d]\<rparr>"]
      show ?thesis
        by (simp add: shell_on_message_def shell_input_def split: option.splits)
    next
      case (Resize c r)
      with Object sp [OF shell_catch_same_procs]
        pty_update_refs_below [OF assms, of "\<lambda>pr. pr\<lparr>cols := c, rows := r\<rparr>"] assms
      show ?thesis
        by (simp add: shell_on_message_def shell_resize_def split: option.splits)
    next
      case (Claude_command c opts)
      with Object assms show ?thesis by (simp add: shell_on_message_def)
    next
      case (Abort_session sid)
      with Object assms show ?thesis by (simp add: shell_on_message_def)
    next
      case Other_type
      with Object assms show ?thesis by (simp add: shell_on_message_def)
    qed
  qed
qed

lemma emit_close_refs_below:
  assumes "refs_below g"
  shows "refs_below (emit_close w g)"
  using assms
  unfolding emit_close_def Let_def shell_on_close_def chat_on_close_def pty_update_def refs_below_def
  by (fastforce split: option.splits handler.splits)

lemma pty_onExit_refs_below:
  assumes "refs_below g"
  shows "refs_below (pty_onExit q c sg g)"
proof (cases "ptys g q")
  case None
  with assms show ?thesis by (simp add: pty_onExit_def)
next
  case (Some pr)
  define g1 where "g1 = (if is_open (owner pr) g then send (owner pr) (Output (exit_banner c sg)) g else g)"
  have "same_procs g g1" by (simp add: g1_def send_same_procs)
  from same_procs_refs_below [OF this assms]
  have "refs_below (g1\<lparr>shellProcess := (shellProcess g1)(owner pr := None)\<rparr>)"
    by (simp add: refs_below_def)
  moreover have "pty_onExit q c sg g = g1\<lparr>shellProcess := (shellProcess g1)(owner pr := None)\<rparr>"
    using Some by (simp add: pty_onExit_def Let_def g1_def)
  ultimately show ?thesis by simp
qed

lemma refs_below_step:
  assumes "refs_below g" and "step ev g = Some g'"
  shows "refs_below g'"
proof (cases ev)
  case (Upgrade req)
  with assms(2) upgrade_refs_below [OF assms(1)] show ?thesis by auto
next
  case (Ws_message w h message)
  with assms shell_on_message_refs_below [OF assms(1)]
    same_procs_refs_below [OF chat_on_message_same_procs assms(1)]
  show ?thesis by (auto split: if_splits option.splits handler.splits)
next
  case (Ws_closing w)
  with assms(2) same_procs_refs_below [OF ws_close_same_procs assms(1)] show ?thesis by auto
next
  case (Ws_close w)
  with assms emit_close_refs_below [OF assms(1)] show ?thesis by (auto split: if_splits)
next
  case (Ws_error w e)
  with assms same_procs_refs_below [OF log_same_procs assms(1)] show ?thesis
    by (auto simp: shell_on_error_def split: if_splits option.splits handler.splits)
next
  case (Pty_data q chunk)
  with assms show ?thesis
    by (auto split: if_splits dest!: pty_onData_same_procs intro: same_procs_refs_below)
next
  case (Pty_exit q c sg)
  with assms
    pty_onExit_refs_below [OF pty_update_refs_below [OF assms(1), of "\<lambda>pr. pr\<lparr>exited := True\<rparr>"]]
  show ?thesis
    by (auto split: if_splits)
next
  case (Projects_changed ps ts et cf)
  with assms(2) same_procs_refs_below [OF notify_same_procs assms(1)] show ?thesis
    by (auto simp: debouncedUpdate_def)
qed

lemma refs_below_run: "refs_below g \<Longrightarrow> run evs g = Some g' \<Longrightarrow> refs_below g'"
proof (induction evs arbitrary: g)
  case Nil
  then show ?case by simp
next
  case (Cons ev evs)
  from Cons.prems(2) obtain g1 where s: "step ev g = Some g1" and r: "run evs g1 = Some g'"
    by (auto split: option.splits)
  from Cons.IH [OF refs_below_step [OF Cons.prems(1) s] r] show ?case .
qed

lemma refs_below_gateway0: "refs_below gateway0"
  by (simp add: refs_below_def gateway0_def)












lemma close_kills_held_process:
  assumes "run evs gateway0 = Some gw" and "live_socket w gw"
    and "listeners gw w = Some Shell" and "shellProcess gw w = Some p"
  shows "killed_in p (step (Ws_close w) gw) = Some True"
proof -
  from refs_below_run [OF refs_below_gateway0 assms(1)] assms(4)
  obtain pr where pr: "ptys gw p = Some pr" by (auto simp: refs_below_def)
  from assms(2) obtain ws where ws: "sockets gw w = Some ws"
    by (auto simp: live_socket_def split: option.splits)
  from assms(2,3,4) pr ws show ?thesis
    by (simp add: killed_in_def emit_close_def shell_on_close_def pty_update_def Let_def)
qed

lemma startsWith_shell_not_ws: "startsWith u (js ''/shell'') \<Longrightarrow> \<not> startsWith u (js ''/ws'')"
  by (cases u; cases "tl u") (auto simp: startsWith_def js_def)

section \<open>The scanner\<close>

text \<open>What \<open>exec\<close> returns is the first position, from \<open>lastIndex\<close> on, at which the
  pattern matches.\<close>

lemma search_Some:
  "search ci as s pos = Some (b, g, e) \<Longrightarrow>
   \<exists>k\<le>length s. b = pos + k \<and> m ci as (drop k s) b b = Some (g, e)
      \<and> (\<forall>j<k. m ci as (drop j s) (pos + j) (pos + j) = None)"
proof (induction s arbitrary: pos)
  case Nil
  then show ?case by (auto split: option.splits)
next
  case (Cons x xs)
  show ?case
  proof (cases "m ci as (x # xs) pos pos")
    case (Some r)
    with Cons.prems have "b = pos" "m ci as (x # xs) pos pos = Some (g, e)"
      by (cases r; simp)+
    then show ?thesis by (intro exI [of _ 0]) simp
  next
    case None
    with Cons.prems have "search ci as xs (Suc pos) = Some (b, g, e)" by simp
    from Cons.IH [OF this] obtain k where k: "k \<le> length xs" "b = Suc pos + k"
      "m ci as (drop k xs) b b = Some (g, e)"
      "\<forall>j<k. m ci as (drop j xs) (Suc pos + j) (Suc pos + j) = None"
      by blast
    have "\<forall>j<Suc k. m ci as (drop j (x # xs)) (pos + j) (pos + j) = None"
    proof (intro allI impI)
      fix j assume "j < Suc k"
      show "m ci as (drop j (x # xs)) (pos + j) (pos + j) = None"
      proof (cases j)
        case 0
        with None show ?thesis by simp
      next
        case (Suc j')
        with \<open>j < Suc k\<close> k(4) show ?thesis by simp
      qed
    qed
    with k show ?thesis by (intro exI [of _ "Suc k"]) simp
  qed
qed

lemma exec_Some:
  assumes "exec p s i = Some (b, g, e)"
  shows "i \<le> b \<and> b \<le> length s \<and> m (ignoreCase p) (atoms_of p) (drop b s) b b = Some (g, e)
       \<and> (\<forall>j. i \<le> j \<and> j < b \<longrightarrow> m (ignoreCase p) (atoms_of p) (drop j s) j j = None)"
proof -
  from assms have le: "i \<le> length s"
    and s: "search (ignoreCase p) (atoms_of p) (drop i s) i = Some (b, g, e)"
    by (auto simp: exec_def atoms_of_def split: if_splits)
  from search_Some [OF s] obtain k where k: "k \<le> length s - i" "b = i + k"
    "m (ignoreCase p) (atoms_of p) (drop k (drop i s)) b b = Some (g, e)"
    "\<forall>j<k. m (ignoreCase p) (atoms_of p) (drop j (drop i s)) (i + j) (i + j) = None"
    by auto
  have "m (ignoreCase p) (atoms_of p) (drop j s) j j = None" if "i \<le> j" "j < b" for j
  proof -
    from that k(2) have "j - i < k" by simp
    with k(4) have "m (ignoreCase p) (atoms_of p) (drop (j - i) (drop i s)) (i + (j - i)) (i + (j - i)) = None"
      by blast
    with that show ?thesis by (simp add: add.commute)
  qed
  with k le show ?thesis by (simp add: add.commute)
qed

lemma matchAll_single:
  assumes "matchAll p d i = Some [mt]"
  shows "exec p d i = Some mt"
proof (cases "exec p d i")
  case None
  with assms show ?thesis by (simp add: matchAll.simps [of p d i])
next
  case (Some r)
  obtain b g e where r: "r = (b, g, e)" by (cases r) auto
  with Some assms show ?thesis
    by (auto simp: matchAll.simps [of p d i] split: if_splits option.splits)
qed

lemma scan_pattern_matchAll:
  "matchAll p d i = Some ms \<Longrightarrow>
   scan_pattern p d i st = Some (foldl (\<lambda>st mt. on_match p d mt st) st ms)"
proof (induction p d i arbitrary: ms st rule: matchAll.induct)
  case (1 pattern data i)
  show ?case
  proof (cases "exec pattern data i")
    case None
    with "1.prems" show ?thesis
      by (simp add: matchAll.simps [of pattern data i] scan_pattern.simps [of pattern data i])
  next
    case (Some r)
    obtain b g e where r: "r = (b, g, e)" by (cases r) auto
    from "1.prems" Some r have adv: "\<not> e \<le> i"
      by (auto simp: matchAll.simps [of pattern data i] split: if_splits)
    with "1.prems" Some r obtain ms' where ms': "matchAll pattern data e = Some ms'"
      and ms: "ms = (b, g, e) # ms'"
      by (auto simp: matchAll.simps [of pattern data i] split: option.splits)
    from "1.IH" [OF Some [unfolded r] refl refl adv ms']
    have "scan_pattern pattern data e (on_match pattern data (b, g, e) st)
          = Some (foldl (\<lambda>st mt. on_match pattern data mt st) (on_match pattern data (b, g, e) st) ms')" .
    with Some r adv ms show ?thesis
      by (simp add: scan_pattern.simps [of pattern data i])
  qed
qed

lemma scan_pattern_no_match:
  "matchAll p d 0 = Some [] \<Longrightarrow> scan_pattern p d 0 st = Some st"
  using scan_pattern_matchAll [of p d 0 "[]" st] by simp

lemma scan_pattern_one_match:
  "matchAll p d 0 = Some [mt] \<Longrightarrow> scan_pattern p d 0 st = Some (on_match p d mt st)"
  using scan_pattern_matchAll [of p d 0 "[mt]" st] by simp

lemma source_includes_OPEN_URL:
  "\<not> js_includes (source pattern_open_cmd) (js ''OPEN_URL'')"
  "js_includes (source pattern_OPEN_URL) (js ''OPEN_URL'')"
  "\<not> js_includes (source pattern_Opening) (js ''OPEN_URL'')"
  "\<not> js_includes (source pattern_Visit) (js ''OPEN_URL'')"
  "\<not> js_includes (source pattern_View_at) (js ''OPEN_URL'')"
  "\<not> js_includes (source pattern_Browse_to) (js ''OPEN_URL'')"
  by (simp_all add: js_includes_def indexOf_def pattern_defs js_def)

text \<open>The sentinel pattern on the sentinel text.\<close>

lemma star_end:
  "m ci [Star cl] s pos g = Some (g, pos + length (takeWhile (in_class cl) s))"
  by (induction s arbitrary: pos) simp_all

lemma url_stop_takeWhile: "url_stop post \<Longrightarrow> takeWhile (in_class UrlChar) post = []"
  by (cases post) (auto simp: url_stop_def)

lemma sentinel_match_ex:
  "\<exists>r. m False (atoms_of pattern_OPEN_URL) (sentinel @ rest) pos pos = Some r"
  by (simp add: atoms_of_def pattern_defs sentinel_def js_def char_eq_def is_space_def star_end)

lemma sentinel_match:
  assumes "url_stop post"
  shows "m False (atoms_of pattern_OPEN_URL) (sentinel @ post) pos pos = Some (pos + 9, pos + 29)"
  by (simp add: atoms_of_def pattern_defs sentinel_def js_def char_eq_def is_space_def star_end
      url_stop_takeWhile [OF assms])

lemma sentinel_occurrence_matches:
  assumes "take (length sentinel) t = sentinel"
  shows "\<exists>r. m False (atoms_of pattern_OPEN_URL) t pos pos = Some r"
proof -
  from assms have "sentinel @ drop (length sentinel) t = t"
    by (metis append_take_drop_id)
  with sentinel_match_ex [of "drop (length sentinel) t" pos] show ?thesis by simp
qed

lemma indexOf_from_first:
  assumes "take (length pat) (drop k s) = pat" and "k \<le> length s"
    and "\<forall>j<k. take (length pat) (drop j s) \<noteq> pat"
  shows "indexOf_from pat s pos = Some (pos + k)"
  using assms
proof (induction s arbitrary: pos k)
  case Nil
  then show ?case by auto
next
  case (Cons c s)
  show ?case
  proof (cases k)
    case 0
    with Cons.prems show ?thesis by simp
  next
    case (Suc k')
    with Cons.prems(3) have ne: "take (length pat) (c # s) \<noteq> pat" by auto
    from Suc Cons.prems have "take (length pat) (drop k' s) = pat" "k' \<le> length s"
      by simp_all
    moreover have "\<forall>j<k'. take (length pat) (drop j s) \<noteq> pat"
    proof (intro allI impI)
      fix j assume "j < k'"
      with Suc Cons.prems(3) have "take (length pat) (drop (Suc j) (c # s)) \<noteq> pat" by blast
      then show "take (length pat) (drop j s) \<noteq> pat" by simp
    qed
    ultimately have "indexOf_from pat s (Suc pos) = Some (Suc pos + k')"
      by (rule Cons.IH)
    with ne Suc show ?thesis by simp
  qed
qed

lemma confirmation_substitution:
  "getSubstitution matched pre post (confirmation @ sentinel_url) = confirmation @ sentinel_url"
  by (simp add: confirmation_def sentinel_url_def js_def)

lemma sentinel_parts:
  "length sentinel = 29"
  "substring (pre @ sentinel @ post) (length pre) (length pre + 29) = sentinel"
  "substring (pre @ sentinel @ post) (length pre + 9) (length pre + 29) = sentinel_url"
  by (simp_all add: substring_def sentinel_def sentinel_url_def js_def)

text \<open>
  Every match of each of the six patterns is at least one character long, so the
  \<open>while\<close> loops end and the callback returns on every chunk.
\<close>

lemma m_pos_le: "m ci as s pos g = Some (g', e) \<Longrightarrow> pos \<le> e"
proof (induction ci as s pos g rule: m.induct)
  case (4 ci c as x xs pos g)
  then show ?case by (fastforce split: if_splits)
next
  case (6 ci c as x xs pos g)
  then show ?case by (fastforce split: if_splits option.splits)
next
  case (8 ci a alts as s pos g)
  then show ?case by (fastforce split: option.splits)
next
  case (10 ci cl as x xs pos g)
  then show ?case by (fastforce split: if_splits option.splits)
next
  case (12 ci cl as x xs pos g)
  then show ?case by (fastforce split: if_splits)
qed simp_all

lemma lit_advances: "m ci (Lit c # as) s pos g = Some (g', e) \<Longrightarrow> pos < e"
  by (cases s) (auto split: if_splits dest: m_pos_le)

lemma patterns_advance:
  assumes "p \<in> set patterns" and "m (ignoreCase p) (atoms_of p) s pos pos = Some (g, e)"
  shows "pos < e"
proof -
  from assms(1) consider "p = pattern_open_cmd" | "p = pattern_OPEN_URL" | "p = pattern_Opening"
    | "p = pattern_Visit" | "p = pattern_View_at" | "p = pattern_Browse_to"
    by (auto simp: patterns_def)
  then show ?thesis
  proof cases
    case 1
    with assms(2) show ?thesis
      by (auto simp: atoms_of_def pattern_open_cmd_def js_def split: option.splits
          dest!: lit_advances)
  next
    case 2
    with assms(2) show ?thesis
      by (auto simp: atoms_of_def pattern_OPEN_URL_def lits_def js_def dest!: lit_advances)
  next
    case 3
    with assms(2) show ?thesis
      by (auto simp: atoms_of_def pattern_Opening_def lits_def js_def dest!: lit_advances)
  next
    case 4
    with assms(2) show ?thesis
      by (auto simp: atoms_of_def pattern_Visit_def lits_def js_def dest!: lit_advances)
  next
    case 5
    with assms(2) show ?thesis
      by (auto simp: atoms_of_def pattern_View_at_def lits_def js_def dest!: lit_advances)
  next
    case 6
    with assms(2) show ?thesis
      by (auto simp: atoms_of_def pattern_Browse_to_def lits_def js_def dest!: lit_advances)
  qed
qed

lemma scan_pattern_returns:
  assumes "p \<in> set patterns"
  shows "\<exists>st'. scan_pattern p d i st = Some st'"
  using assms
proof (induction p d i st rule: scan_pattern.induct)
  case (1 pattern data i st)
  show ?case
  proof (cases "exec pattern data i")
    case None
    then show ?thesis by (simp add: scan_pattern.simps [of pattern data i])
  next
    case (Some r)
    obtain b g e where r: "r = (b, g, e)" by (cases r) auto
    from exec_Some [OF Some [unfolded r]]
    have "i \<le> b" and "m (ignoreCase pattern) (atoms_of pattern) (drop b data) b b = Some (g, e)"
      by simp_all
    with patterns_advance [OF "1.prems"] have adv: "\<not> e \<le> i" by fastforce
    from "1.IH" [OF Some [unfolded r] refl refl adv "1.prems"] Some r adv
    show ?thesis by (simp add: scan_pattern.simps [of pattern data i])
  qed
qed

lemma scan_all_returns:
  "set ps \<subseteq> set patterns \<Longrightarrow> \<exists>st'. scan_all ps d st = Some st'"
proof (induction ps arbitrary: st)
  case Nil
  show ?case by simp
next
  case (Cons p ps)
  from Cons.prems have "p \<in> set patterns" by simp
  from scan_pattern_returns [OF this, of d 0 st]
  obtain st1 where "scan_pattern p d 0 st = Some st1" by blast
  moreover from Cons.IH [of st1] Cons.prems obtain st' where "scan_all ps d st1 = Some st'"
    by auto
  ultimately show ?case by simp
qed

lemma onData_returns: "\<exists>ws'. onData ws d = Some ws'"
proof (cases "readyState ws = OPEN")
  case True
  from scan_all_returns [of patterns d "(ws, d)"] obtain st' where
    "scan_all patterns d (ws, d) = Some st'" by auto
  with True show ?thesis by (cases st') (simp add: onData_def)
next
  case False
  then show ?thesis by (simp add: onData_def)
qed

lemma pty_onData_returns: "\<exists>gw'. pty_onData p chunk gw = Some gw'"
proof (cases "ptys gw p")
  case None
  then show ?thesis by (simp add: pty_onData_def)
next
  case (Some pr)
  show ?thesis
  proof (cases "sockets gw (owner pr)")
    case None
    with Some show ?thesis by (simp add: pty_onData_def)
  next
    case (Some ws)
    from onData_returns [of ws chunk] obtain ws' where "onData ws chunk = Some ws'" by blast
    with Some \<open>ptys gw p = Some pr\<close> show ?thesis by (simp add: pty_onData_def)
  qed
qed

text \<open>Every callback returns; only an \<open>error\<close> event can be left uncaught.\<close>

lemma step_returns:
  assumes "\<And>w e. ev \<noteq> Ws_error w e"
  shows "\<exists>gw'. step ev gw = Some gw'"
proof (cases ev)
  case (Ws_message w h message)
  then show ?thesis by (simp split: option.splits handler.splits)
next
  case (Ws_error w e)
  with assms [of w e] show ?thesis by blast
next
  case (Pty_data p chunk)
  with pty_onData_returns [of p chunk gw] show ?thesis by simp
qed simp_all

section \<open>The claims\<close>

subsection \<open>Upgrade gate\<close>

text \<open>
  C1. For an upgrade request whose session is not authenticated, the gate writes the
  \<open>401 Unauthorized\<close> status line to the raw socket and destroys it, and that is all it
  does: the handshake response is not written, and the state of the gateway is the one
  before the request, so no connection object exists, the Broadcast Registry has no new
  member and no session handler has been attached.
\<close>

theorem upgrade_rejects_unauthenticated:
  assumes "session_isAuthenticated req \<noteq> Some True"
  shows "upgrade req sock gw = (sock\<lparr>written := written sock @ [unauthorized], destroyed := True\<rparr>, gw)
         \<and> step (Upgrade req) gw = Some gw"
  using assms by (simp add: upgrade_def)

theorem upgrade_rejects_unauthenticated_witness:
  "upgrade \<lparr>url = js ''/ws'', session_isAuthenticated = None\<rparr> \<lparr>written = [], destroyed = False\<rparr> gateway0
     = (\<lparr>written = [unauthorized], destroyed = True\<rparr>, gateway0)
   \<and> step (Upgrade \<lparr>url = js ''/ws'', session_isAuthenticated = None\<rparr>) gateway0 = Some gateway0"
  using upgrade_rejects_unauthenticated [of "\<lparr>url = js ''/ws'', session_isAuthenticated = None\<rparr>"
      "\<lparr>written = [], destroyed = False\<rparr>" gateway0]
  by simp

subsection \<open>Router\<close>

text \<open>
  C9. On a freshly established connection the router dispatches on the path of the
  request, which is an argument of the callback and is read from nothing else: a path
  that starts with \<open>/shell\<close> attaches the shell handler, a path that starts with
  \<open>/ws\<close> attaches the chat handler and registers the connection, and any other path
  closes the connection and attaches no handler.
\<close>

theorem router_dispatch:
  assumes "sockets gw w = Some \<lparr>readyState = OPEN, sent = []\<rparr>"
    and "listeners gw w = None" and "w \<notin> set (connectedClients gw)"
  shows "(startsWith (url req) (js ''/shell'') \<longrightarrow>
            on_connection w req gw = handleShellConnection w gw
            \<and> listeners (on_connection w req gw) w = Some Shell
            \<and> w \<notin> set (connectedClients (on_connection w req gw))
            \<and> is_open w (on_connection w req gw))
       \<and> (startsWith (url req) (js ''/ws'') \<longrightarrow>
            on_connection w req gw = handleChatConnection w gw
            \<and> listeners (on_connection w req gw) w = Some Chat
            \<and> w \<in> set (connectedClients (on_connection w req gw))
            \<and> is_open w (on_connection w req gw))
       \<and> (\<not> startsWith (url req) (js ''/shell'') \<and> \<not> startsWith (url req) (js ''/ws'') \<longrightarrow>
            on_connection w req gw = ws_close w gw
            \<and> sockets (on_connection w req gw) w = Some \<lparr>readyState = CLOSING, sent = []\<rparr>
            \<and> listeners (on_connection w req gw) w = None
            \<and> w \<notin> set (connectedClients (on_connection w req gw)))"
  using assms startsWith_shell_not_ws [of "url req"]
  by (auto simp: on_connection_def handleShellConnection_def handleChatConnection_def
        ws_close_def is_open_def set_add_def)

theorem router_dispatch_witness:
  "sockets fresh_gateway 0 = Some \<lparr>readyState = OPEN, sent = []\<rparr>
   \<and> listeners fresh_gateway 0 = None \<and> 0 \<notin> set (connectedClients fresh_gateway)
   \<and> startsWith (url shell_req) (js ''/shell'')
   \<and> listeners (on_connection 0 shell_req fresh_gateway) 0 = Some Shell
   \<and> \<not> startsWith (url chat_req) (js ''/shell'') \<and> startsWith (url chat_req) (js ''/ws'')
   \<and> listeners (on_connection 0 chat_req fresh_gateway) 0 = Some Chat
   \<and> 0 \<in> set (connectedClients (on_connection 0 chat_req fresh_gateway))
   \<and> \<not> startsWith (url other_req) (js ''/shell'') \<and> \<not> startsWith (url other_req) (js ''/ws'')
   \<and> sockets (on_connection 0 other_req fresh_gateway) 0 = Some \<lparr>readyState = CLOSING, sent = []\<rparr>
   \<and> listeners (on_connection 0 other_req fresh_gateway) 0 = None"
proof -
  have h: "sockets fresh_gateway 0 = Some \<lparr>readyState = OPEN, sent = []\<rparr>"
    "listeners fresh_gateway 0 = None" "0 \<notin> set (connectedClients fresh_gateway)"
    by (simp_all add: fresh_gateway_def gateway0_def)
  have u: "startsWith (url shell_req) (js ''/shell'')"
    "\<not> startsWith (url chat_req) (js ''/shell'')" "startsWith (url chat_req) (js ''/ws'')"
    "\<not> startsWith (url other_req) (js ''/shell'')" "\<not> startsWith (url other_req) (js ''/ws'')"
    by (simp_all add: example_defs startsWith_def js_def)
  from h u router_dispatch [OF h, of shell_req] router_dispatch [OF h, of chat_req]
    router_dispatch [OF h, of other_req]
  show ?thesis by blast
qed

subsection \<open>Broadcast Registry\<close>

text \<open>
  C7. In every state the gateway reaches, the Broadcast Registry has no duplicates, and
  a connection is a member exactly when the chat handler has been started on it and its
  close event has not fired. The handler registers the connection in the same callback
  that attaches the message listener, so membership holds before any message is
  processed.
\<close>

theorem registry_membership:
  assumes "run evs gateway0 = Some gw"
  shows "distinct (connectedClients gw)
       \<and> (\<forall>w. w \<in> set (connectedClients gw) \<longleftrightarrow> listeners gw w = Some Chat \<and> live_socket w gw)"
  using reg_inv_run [OF reg_inv_gateway0 assms] by (simp add: reg_inv_def)

theorem registry_membership_witness:
  "\<exists>gw. run [Upgrade chat_req, Upgrade chat_req, Ws_close 0] gateway0 = Some gw
     \<and> connectedClients gw = [1]
     \<and> distinct (connectedClients gw)
     \<and> (\<forall>w. w \<in> set (connectedClients gw) \<longleftrightarrow> listeners gw w = Some Chat \<and> live_socket w gw)"
proof -
  have "\<exists>gw. run [Upgrade chat_req, Upgrade chat_req, Ws_close 0] gateway0 = Some gw
     \<and> connectedClients gw = [1]"
    by (simp add: handler_defs chat_req_def)
  then obtain gw where r: "run [Upgrade chat_req, Upgrade chat_req, Ws_close 0] gateway0 = Some gw"
    and c: "connectedClients gw = [1]" by blast
  from registry_membership [OF r] r c show ?thesis by blast
qed

subsection \<open>Notification fan-out\<close>

text \<open>
  C8. For a Notification Event the fan-out appends exactly one \<open>projects_updated\<close>
  message to every registered connection that is open, and changes nothing else: a
  registered connection that is not open gets no message, nothing fails (the callback
  returns a state), and what the other connections receive does not depend on it.
\<close>

theorem fan_out:
  assumes "run evs gateway0 = Some gw"
  shows "step (Projects_changed projects ts eventType changedFile) gw =
     Some (gw\<lparr>sockets := (\<lambda>w. if w \<in> set (connectedClients gw) \<and> is_open w gw
                then map_option
                       (\<lambda>ws. ws\<lparr>sent := sent ws @ [Projects_updated projects ts eventType changedFile]\<rparr>)
                       (sockets gw w)
                else sockets gw w)\<rparr>)"
proof -
  from reg_inv_run [OF reg_inv_gateway0 assms] have "distinct (connectedClients gw)"
    by (simp add: reg_inv_def)
  then show ?thesis
    by (simp add: debouncedUpdate_def notify_def notify_foldl)
qed

theorem fan_out_witness:
  "\<exists>gw. run [Upgrade chat_req, Upgrade chat_req, Ws_closing 0] gateway0 = Some gw
     \<and> connectedClients gw = [0, 1] \<and> \<not> is_open 0 gw \<and> is_open 1 gw
     \<and> sent_on 0 (step (Projects_changed [js ''app''] (js ''t'') (js ''add'') (js ''a.jsonl'')) gw) = []
     \<and> sent_on 1 (step (Projects_changed [js ''app''] (js ''t'') (js ''add'') (js ''a.jsonl'')) gw)
          = [Projects_updated [js ''app''] (js ''t'') (js ''add'') (js ''a.jsonl'')]"
proof -
  have "\<exists>gw. run [Upgrade chat_req, Upgrade chat_req, Ws_closing 0] gateway0 = Some gw
     \<and> connectedClients gw = [0, 1] \<and> \<not> is_open 0 gw \<and> is_open 1 gw
     \<and> sent_on 0 (Some gw) = [] \<and> sent_on 1 (Some gw) = []"
    by (simp add: sent_on_def handler_defs example_defs)
  then obtain gw where r: "run [Upgrade chat_req, Upgrade chat_req, Ws_closing 0] gateway0 = Some gw"
    and c: "connectedClients gw = [0, 1]" "\<not> is_open 0 gw" "is_open 1 gw"
    and s: "sent_on 0 (Some gw) = []" "sent_on 1 (Some gw) = []"
    by blast
  from s c have
    "sent_on 0 (step (Projects_changed [js ''app''] (js ''t'') (js ''add'') (js ''a.jsonl'')) gw) = []"
    "sent_on 1 (step (Projects_changed [js ''app''] (js ''t'') (js ''add'') (js ''a.jsonl'')) gw)
          = [Projects_updated [js ''app''] (js ''t'') (js ''add'') (js ''a.jsonl'')]"
    unfolding fan_out [OF r]
    by (auto simp: sent_on_def is_open_def split: option.splits)
  with r c show ?thesis by blast
qed

subsection \<open>Malformed JSON\<close>

text \<open>
  C5, as amended. On an open connection, a payload that \<open>JSON.parse\<close> rejects is
  reported on the same connection and the connection is not closed: a chat connection
  gets an \<open>error\<close> message, a shell connection gets an \<open>output\<close> message that
  carries the error banner. Nothing else changes but the console, so the socket stays
  open with its listeners attached.
\<close>

theorem malformed_json_reported:
  assumes "sockets gw w = Some ws" and "readyState ws = OPEN"
  shows "(listeners gw w = Some Chat \<longrightarrow>
            step (Ws_message w h (Throws e)) gw =
              Some (gw\<lparr>sockets := (sockets gw)(w \<mapsto> ws\<lparr>sent := sent ws @ [Error_msg e]\<rparr>),
                       console := console gw @ [Chat_WebSocket_error e]\<rparr>))
       \<and> (listeners gw w = Some Shell \<longrightarrow>
            step (Ws_message w h (Throws e)) gw =
              Some (gw\<lparr>sockets := (sockets gw)(w \<mapsto> ws\<lparr>sent := sent ws @ [Output (error_banner e)]\<rparr>),
                       console := console gw @ [Shell_WebSocket_error e]\<rparr>))"
  using assms
  by (simp add: live_socket_def chat_on_message_def shell_on_message_def chat_catch_def
      shell_catch_def send_def ws_send_def log_def is_open_def)

theorem malformed_json_reported_witness:
  "sockets chat_and_shell 0 = Some \<lparr>readyState = OPEN, sent = []\<rparr>
   \<and> listeners chat_and_shell 0 = Some Chat
   \<and> sent_on 0 (step (Ws_message 0 host0 (Throws (js ''Unexpected token''))) chat_and_shell)
       = [Error_msg (js ''Unexpected token'')]
   \<and> sockets chat_and_shell 1 = Some \<lparr>readyState = OPEN, sent = []\<rparr>
   \<and> listeners chat_and_shell 1 = Some Shell
   \<and> sent_on 1 (step (Ws_message 1 host0 (Throws (js ''Unexpected token''))) chat_and_shell)
       = [Output (error_banner (js ''Unexpected token''))]"
proof -
  have h0: "sockets chat_and_shell 0 = Some \<lparr>readyState = OPEN, sent = []\<rparr>"
    and l0: "listeners chat_and_shell 0 = Some Chat"
    and h1: "sockets chat_and_shell 1 = Some \<lparr>readyState = OPEN, sent = []\<rparr>"
    and l1: "listeners chat_and_shell 1 = Some Shell"
    by (simp_all add: chat_and_shell_def)
  have o: "readyState \<lparr>readyState = OPEN, sent = []\<rparr> = OPEN" by simp
  from malformed_json_reported [OF h0 o, of host0 "js ''Unexpected token''"] l0
  have "sent_on 0 (step (Ws_message 0 host0 (Throws (js ''Unexpected token''))) chat_and_shell)
       = [Error_msg (js ''Unexpected token'')]"
    by (simp add: sent_on_def)
  moreover from malformed_json_reported [OF h1 o, of host0 "js ''Unexpected token''"] l1
  have "sent_on 1 (step (Ws_message 1 host0 (Throws (js ''Unexpected token''))) chat_and_shell)
       = [Output (error_banner (js ''Unexpected token''))]"
    by (simp add: sent_on_def)
  ultimately show ?thesis using h0 l0 h1 l1 by simp
qed

text \<open>
  C5, as stated, fails on a shell connection: the message sent for an unparseable
  payload is an \<open>output\<close> message, not an \<open>error\<close> message.
\<close>

theorem shell_malformed_json_counterexample:
  "sent_on 0 (run [Upgrade shell_req, Ws_message 0 host0 (Throws (js ''Unexpected token''))] gateway0)
     = [Output (error_banner (js ''Unexpected token''))]"
  by (simp add: sent_on_def handler_defs example_defs)

subsection \<open>Input to a running shell session\<close>

text \<open>
  C6, as amended. For an \<open>input\<close> message on a shell connection whose \<open>shellProcess\<close>
  holds a process, the bytes are written to the input of that process; if the write
  throws, the failure is written to the console of the server and nothing else changes:
  nothing is sent to the client, the process reference is kept and the connection stays
  as it was.
\<close>

theorem input_forwarded_or_logged:
  assumes "live_socket w gw" and "listeners gw w = Some Shell"
    and "shellProcess gw w = Some p" and "ptys gw p = Some pr"
  shows "(pty_write_throws h = None \<longrightarrow>
            step (Ws_message w h (Object (Input d))) gw =
              Some (gw\<lparr>ptys := (ptys gw)(p \<mapsto> pr\<lparr>input_written := input_written pr @ [d]\<rparr>)\<rparr>))
       \<and> (pty_write_throws h = Some e \<longrightarrow>
            step (Ws_message w h (Object (Input d))) gw =
              Some (gw\<lparr>console := console gw @ [Error_writing_to_shell e]\<rparr>))"
  using assms
  by (simp add: shell_on_message_def shell_input_def pty_update_def log_def)

theorem input_forwarded_or_logged_witness:
  "\<exists>gw pr. run running_shell gateway0 = Some gw
     \<and> live_socket 0 gw \<and> listeners gw 0 = Some Shell
     \<and> shellProcess gw 0 = Some 0 \<and> ptys gw 0 = Some pr
     \<and> pty_write_throws host0 = None
     \<and> step (Ws_message 0 host0 (Object (Input (js ''ls'')))) gw =
          Some (gw\<lparr>ptys := (ptys gw)(0 \<mapsto> pr\<lparr>input_written := input_written pr @ [js ''ls'']\<rparr>)\<rparr>)
     \<and> pty_write_throws bad_write = Some (js ''EIO'')
     \<and> step (Ws_message 0 bad_write (Object (Input (js ''ls'')))) gw =
          Some (gw\<lparr>console := console gw @ [Error_writing_to_shell (js ''EIO'')]\<rparr>)"
proof -
  have "\<exists>gw pr. run running_shell gateway0 = Some gw
     \<and> live_socket 0 gw \<and> listeners gw 0 = Some Shell
     \<and> shellProcess gw 0 = Some 0 \<and> ptys gw 0 = Some pr"
    by (simp add: running_shell_def handler_defs example_defs)
  then obtain gw pr where r: "run running_shell gateway0 = Some gw"
    and h: "live_socket 0 gw" "listeners gw 0 = Some Shell"
      "shellProcess gw 0 = Some 0" "ptys gw 0 = Some pr"
    by blast
  have w: "pty_write_throws host0 = None" "pty_write_throws bad_write = Some (js ''EIO'')"
    by (simp_all add: example_defs)
  from input_forwarded_or_logged [OF h, where h = host0 and d = "js ''ls''"]
    input_forwarded_or_logged [OF h, where h = bad_write and e = "js ''EIO''" and d = "js ''ls''"]
    r h w
  show ?thesis by blast
qed

text \<open>
  C6, as stated, fails: after a failed write the client has received nothing beyond
  what it had received before the \<open>input\<close> message.
\<close>

theorem write_failure_counterexample:
  "sent_on 0 (run running_shell gateway0) = [Output (welcomeMsg False None (js ''/home/u/app''))]
   \<and> sent_on 0 (run (running_shell @ [Ws_message 0 bad_write (Object (Input (js ''ls'')))]) gateway0)
       = [Output (welcomeMsg False None (js ''/home/u/app''))]"
  by (simp add: sent_on_def running_shell_def handler_defs example_defs truthy_def js_of_opt_def)

subsection \<open>A second init\<close>




subsection \<open>Closing a shell connection\<close>

text \<open>
  C2. The close handler kills the process that \<open>shellProcess\<close> holds
  (\<open>close_kills_held_process\<close>), and no other. After two \<open>init\<close> messages on one
  shell connection, the close of the connection therefore kills the second process
  only: the first one has neither exited nor been killed, so it outlives its connection.
\<close>

theorem double_init_orphans_process:
  "killed_in 0 (run (running_shell @ [Ws_message 0 host0 init_msg, Ws_close 0]) gateway0) = Some False
   \<and> exited_in 0 (run (running_shell @ [Ws_message 0 host0 init_msg, Ws_close 0]) gateway0) = Some False
   \<and> killed_in 1 (run (running_shell @ [Ws_message 0 host0 init_msg, Ws_close 0]) gateway0) = Some True"
  by (simp add: killed_in_def exited_in_def running_shell_def handler_defs example_defs)

subsection \<open>Output scanner\<close>

text \<open>
  C3, as amended. Let a chunk contain the text \<open>OPEN_URL:http://example.com/x\<close>,
  followed by the end of the chunk or by a whitespace, ESC or BEL character, and let the
  match of the sentinel pattern at that text be the only occurrence of any of the six
  patterns in the chunk. On an open connection the callback then sends exactly one
  \<open>url_open\<close> message, with the URL \<open>http://example.com/x\<close>, followed by the
  \<open>output\<close> message, whose text is the chunk with the sentinel text replaced by the
  confirmation text and everything before and after it unchanged.
\<close>

theorem sentinel_rewritten:
  assumes "readyState ws = OPEN"
    and "url_stop post"
    and "matchAll pattern_OPEN_URL (pre @ sentinel @ post) 0 = Some [mt]"
    and "fst mt = length pre"
    and "matchAll pattern_open_cmd (pre @ sentinel @ post) 0 = Some []"
    and "matchAll pattern_Opening (pre @ sentinel @ post) 0 = Some []"
    and "matchAll pattern_Visit (pre @ sentinel @ post) 0 = Some []"
    and "matchAll pattern_View_at (pre @ sentinel @ post) 0 = Some []"
    and "matchAll pattern_Browse_to (pre @ sentinel @ post) 0 = Some []"
  shows "onData ws (pre @ sentinel @ post) =
     Some (ws\<lparr>sent := sent ws @ [Url_open sentinel_url,
                                 Output (pre @ confirmation @ sentinel_url @ post)]\<rparr>)"
proof -
  let ?chunk = "pre @ sentinel @ post"
  let ?n = "length pre"
  obtain b g e where mt: "mt = (b, g, e)" by (cases mt) auto
  with assms(4) have b: "b = ?n" by simp
  from matchAll_single [OF assms(3)] mt b
  have ex: "exec pattern_OPEN_URL ?chunk 0 = Some (?n, g, e)" by simp
  have ci: "ignoreCase pattern_OPEN_URL = False" by (simp add: pattern_OPEN_URL_def)
  from exec_Some [OF ex]
  have at: "m False (atoms_of pattern_OPEN_URL) (drop ?n ?chunk) ?n ?n = Some (g, e)"
    and before: "\<forall>j<?n. m False (atoms_of pattern_OPEN_URL) (drop j ?chunk) j j = None"
    by (simp_all add: ci)
  from at sentinel_match [OF assms(2), of ?n] have ge: "g = ?n + 9" "e = ?n + 29" by simp_all
  have no_earlier: "\<forall>j<?n. take (length sentinel) (drop j ?chunk) \<noteq> sentinel"
  proof (intro allI impI notI)
    fix j assume j: "j < ?n" and eq: "take (length sentinel) (drop j ?chunk) = sentinel"
    from sentinel_occurrence_matches [OF eq, of j]
    obtain r where "m False (atoms_of pattern_OPEN_URL) (drop j ?chunk) j j = Some r" by blast
    moreover from before j
    have "m False (atoms_of pattern_OPEN_URL) (drop j ?chunk) j j = None" by blast
    ultimately show False by simp
  qed
  have "indexOf_from sentinel ?chunk 0 = Some (0 + ?n)"
    by (rule indexOf_from_first [OF _ _ no_earlier]) simp_all
  then have idx: "indexOf ?chunk sentinel = Some ?n" by (simp add: indexOf_def)
  have rep: "replace ?chunk sentinel (confirmation @ sentinel_url)
             = pre @ confirmation @ sentinel_url @ post"
    by (simp add: replace_def idx Let_def confirmation_substitution sentinel_parts(1))
  have om: "on_match pattern_OPEN_URL ?chunk (?n, g, e) (ws, ?chunk)
            = (ws_send (Url_open sentinel_url) ws, pre @ confirmation @ sentinel_url @ post)"
    by (simp add: on_match_def ge sentinel_parts source_includes_OPEN_URL rep Let_def)
  from scan_pattern_one_match [OF assms(3)] mt b om
  have sc: "scan_pattern pattern_OPEN_URL ?chunk 0 (ws, ?chunk)
            = Some (ws_send (Url_open sentinel_url) ws, pre @ confirmation @ sentinel_url @ post)"
    by simp
  show ?thesis
    using assms(1)
    by (simp add: onData_def patterns_def sc
        scan_pattern_no_match [OF assms(5)] scan_pattern_no_match [OF assms(6)]
        scan_pattern_no_match [OF assms(7)] scan_pattern_no_match [OF assms(8)]
        scan_pattern_no_match [OF assms(9)] ws_send_def)
qed

theorem sentinel_rewritten_witness:
  "url_stop sentinel_chunk_post
   \<and> matchAll pattern_OPEN_URL (sentinel_chunk_pre @ sentinel @ sentinel_chunk_post) 0
       = Some [(19, 28, 48)]
   \<and> fst (19 :: nat, 28 :: nat, 48 :: nat) = length sentinel_chunk_pre
   \<and> matchAll pattern_open_cmd (sentinel_chunk_pre @ sentinel @ sentinel_chunk_post) 0 = Some []
   \<and> matchAll pattern_Opening (sentinel_chunk_pre @ sentinel @ sentinel_chunk_post) 0 = Some []
   \<and> matchAll pattern_Visit (sentinel_chunk_pre @ sentinel @ sentinel_chunk_post) 0 = Some []
   \<and> matchAll pattern_View_at (sentinel_chunk_pre @ sentinel @ sentinel_chunk_post) 0 = Some []
   \<and> matchAll pattern_Browse_to (sentinel_chunk_pre @ sentinel @ sentinel_chunk_post) 0 = Some []
   \<and> onData \<lparr>readyState = OPEN, sent = []\<rparr> (sentinel_chunk_pre @ sentinel @ sentinel_chunk_post) =
       Some \<lparr>readyState = OPEN,
             sent = [Url_open sentinel_url,
                     Output (sentinel_chunk_pre @ confirmation @ sentinel_url @ sentinel_chunk_post)]\<rparr>"
proof -
  note defs = sentinel_chunk_pre_def sentinel_chunk_post_def sentinel_def
  have h0: "url_stop sentinel_chunk_post"
    by (simp add: url_stop_def sentinel_chunk_post_def is_space_def)
  have h1: "matchAll pattern_OPEN_URL (sentinel_chunk_pre @ sentinel @ sentinel_chunk_post) 0
       = Some [(19, 28, 48)]"
    by (simp add: defs scan_eval)
  have h2: "fst (19 :: nat, 28 :: nat, 48 :: nat) = length sentinel_chunk_pre"
    by (simp add: sentinel_chunk_pre_def js_def)
  have h3: "matchAll pattern_open_cmd (sentinel_chunk_pre @ sentinel @ sentinel_chunk_post) 0 = Some []"
    by (simp add: defs scan_eval)
  have h4: "matchAll pattern_Opening (sentinel_chunk_pre @ sentinel @ sentinel_chunk_post) 0 = Some []"
    by (simp add: defs scan_eval)
  have h5: "matchAll pattern_Visit (sentinel_chunk_pre @ sentinel @ sentinel_chunk_post) 0 = Some []"
    by (simp add: defs scan_eval)
  have h6: "matchAll pattern_View_at (sentinel_chunk_pre @ sentinel @ sentinel_chunk_post) 0 = Some []"
    by (simp add: defs scan_eval)
  have h7: "matchAll pattern_Browse_to (sentinel_chunk_pre @ sentinel @ sentinel_chunk_post) 0 = Some []"
    by (simp add: defs scan_eval)
  have o: "readyState \<lparr>readyState = OPEN, sent = []\<rparr> = OPEN" by simp
  from sentinel_rewritten [OF o h0 h1 h2 h3 h4 h5 h6 h7] h0 h1 h2 h3 h4 h5 h6 h7
  show ?thesis by simp
qed

text \<open>
  C3, as stated, fails when the sentinel text is followed by further URL characters: the
  chunk \<open>OPEN_URL:http://example.com/xyz\<close> contains the sentinel text and has no
  other pattern occurrence, and the URL of the event is \<open>http://example.com/xyz\<close>.
\<close>

theorem sentinel_counterexample:
  "no_delimiter_chunk = sentinel @ js ''yz''
   \<and> matchAll pattern_OPEN_URL no_delimiter_chunk 0 = Some [(0, 9, 31)]
   \<and> matchAll pattern_open_cmd no_delimiter_chunk 0 = Some []
   \<and> matchAll pattern_Opening no_delimiter_chunk 0 = Some []
   \<and> matchAll pattern_Visit no_delimiter_chunk 0 = Some []
   \<and> matchAll pattern_View_at no_delimiter_chunk 0 = Some []
   \<and> matchAll pattern_Browse_to no_delimiter_chunk 0 = Some []
   \<and> onData \<lparr>readyState = OPEN, sent = []\<rparr> no_delimiter_chunk =
       Some \<lparr>readyState = OPEN,
             sent = [Url_open (js ''http://example.com/xyz''),
                     Output (confirmation @ js ''http://example.com/xyz'')]\<rparr>
   \<and> js ''http://example.com/xyz'' \<noteq> sentinel_url"
proof -
  have c: "no_delimiter_chunk = sentinel @ js ''yz''"
    by (simp add: no_delimiter_chunk_def sentinel_def js_def)
  have h1: "matchAll pattern_OPEN_URL no_delimiter_chunk 0 = Some [(0, 9, 31)]"
    by (simp add: no_delimiter_chunk_def scan_eval)
  have h2: "matchAll pattern_open_cmd no_delimiter_chunk 0 = Some []"
    by (simp add: no_delimiter_chunk_def scan_eval)
  have h3: "matchAll pattern_Opening no_delimiter_chunk 0 = Some []"
    by (simp add: no_delimiter_chunk_def scan_eval)
  have h4: "matchAll pattern_Visit no_delimiter_chunk 0 = Some []"
    by (simp add: no_delimiter_chunk_def scan_eval)
  have h5: "matchAll pattern_View_at no_delimiter_chunk 0 = Some []"
    by (simp add: no_delimiter_chunk_def scan_eval)
  have h6: "matchAll pattern_Browse_to no_delimiter_chunk 0 = Some []"
    by (simp add: no_delimiter_chunk_def scan_eval)
  have r: "replace no_delimiter_chunk (substring no_delimiter_chunk 0 31)
             (confirmation @ js ''http://example.com/xyz'')
           = confirmation @ js ''http://example.com/xyz''"
    by (simp add: no_delimiter_chunk_def substring_def replace_def indexOf_def
        confirmation_def js_def Let_def)
  have u: "substring no_delimiter_chunk 9 31 = js ''http://example.com/xyz''"
    by (simp add: no_delimiter_chunk_def substring_def js_def)
  have o: "onData \<lparr>readyState = OPEN, sent = []\<rparr> no_delimiter_chunk =
       Some \<lparr>readyState = OPEN,
             sent = [Url_open (js ''http://example.com/xyz''),
                     Output (confirmation @ js ''http://example.com/xyz'')]\<rparr>"
    by (simp add: onData_def patterns_def scan_pattern_one_match [OF h1]
        scan_pattern_no_match [OF h2] scan_pattern_no_match [OF h3]
        scan_pattern_no_match [OF h4] scan_pattern_no_match [OF h5]
        scan_pattern_no_match [OF h6] on_match_def source_includes_OPEN_URL
        r u ws_send_def Let_def)
  have n: "js ''http://example.com/xyz'' \<noteq> sentinel_url"
    by (simp add: sentinel_url_def js_def)
  from c h1 h2 h3 h4 h5 h6 o n show ?thesis by blast
qed

text \<open>
  C4. If the global scan of a chunk finds exactly one match of the
  \<open>xdg-open|open|start\<close> pattern and exactly one match of the \<open>Visit:\<close> pattern and
  no match of the other four patterns, then on an open connection the callback sends
  exactly two \<open>url_open\<close> messages, one per URL, followed by the \<open>output\<close> message
  with the unchanged chunk. The patterns are tried in the order of the array, so the
  URL of the first pattern comes first, wherever the two matches are in the chunk.
\<close>

theorem two_patterns_two_events:
  assumes "readyState ws = OPEN"
    and "matchAll pattern_open_cmd chunk 0 = Some [(b1, g1, e1)]"
    and "matchAll pattern_Visit chunk 0 = Some [(b2, g2, e2)]"
    and "matchAll pattern_OPEN_URL chunk 0 = Some []"
    and "matchAll pattern_Opening chunk 0 = Some []"
    and "matchAll pattern_View_at chunk 0 = Some []"
    and "matchAll pattern_Browse_to chunk 0 = Some []"
  shows "onData ws chunk =
     Some (ws\<lparr>sent := sent ws @ [Url_open (substring chunk g1 e1),
                                 Url_open (substring chunk g2 e2),
                                 Output chunk]\<rparr>)"
  using assms(1)
  by (simp add: onData_def patterns_def
      scan_pattern_one_match [OF assms(2)] scan_pattern_one_match [OF assms(3)]
      scan_pattern_no_match [OF assms(4)] scan_pattern_no_match [OF assms(5)]
      scan_pattern_no_match [OF assms(6)] scan_pattern_no_match [OF assms(7)]
      on_match_def source_includes_OPEN_URL ws_send_def Let_def)

theorem two_patterns_two_events_witness:
  "matchAll pattern_open_cmd visit_then_xdg 0 = Some [(17, 26, 35)]
   \<and> matchAll pattern_Visit visit_then_xdg 0 = Some [(0, 7, 16)]
   \<and> matchAll pattern_OPEN_URL visit_then_xdg 0 = Some []
   \<and> matchAll pattern_Opening visit_then_xdg 0 = Some []
   \<and> matchAll pattern_View_at visit_then_xdg 0 = Some []
   \<and> matchAll pattern_Browse_to visit_then_xdg 0 = Some []
   \<and> onData \<lparr>readyState = OPEN, sent = []\<rparr> visit_then_xdg =
       Some \<lparr>readyState = OPEN,
             sent = [Url_open (js ''https://a''), Url_open (js ''https://b''), Output visit_then_xdg]\<rparr>"
proof -
  have h1: "matchAll pattern_open_cmd visit_then_xdg 0 = Some [(17, 26, 35)]"
    by (simp add: visit_then_xdg_def scan_eval)
  have h2: "matchAll pattern_Visit visit_then_xdg 0 = Some [(0, 7, 16)]"
    by (simp add: visit_then_xdg_def scan_eval)
  have h3: "matchAll pattern_OPEN_URL visit_then_xdg 0 = Some []"
    by (simp add: visit_then_xdg_def scan_eval)
  have h4: "matchAll pattern_Opening visit_then_xdg 0 = Some []"
    by (simp add: visit_then_xdg_def scan_eval)
  have h5: "matchAll pattern_View_at visit_then_xdg 0 = Some []"
    by (simp add: visit_then_xdg_def scan_eval)
  have h6: "matchAll pattern_Browse_to visit_then_xdg 0 = Some []"
    by (simp add: visit_then_xdg_def scan_eval)
  have o: "readyState \<lparr>readyState = OPEN, sent = []\<rparr> = OPEN" by simp
  have s: "substring visit_then_xdg 26 35 = js ''https://a''"
    "substring visit_then_xdg 7 16 = js ''https://b''"
    by (simp_all add: visit_then_xdg_def substring_def js_def)
  from two_patterns_two_events [OF o h1 h2 h3 h4 h5 h6] h1 h2 h3 h4 h5 h6 s
  show ?thesis by simp
qed

end
